theory Spec2Isabelle
  imports Complex_Main "HOL-Library.Word"
begin

unbundle bit_operations_syntax

section \<open>Spatial hash grids of adm87/utilities\<close>

text \<open>
  The repository holds several variants of one spatial hash grid. Three of them are
  embedded here:
  \<^item> package \<open>hash\<close> (\<open>src/hash/grid.go\<close>): reverse index, generation-stamp
    deduplication, optional padding and per-cell predicate. Its functions keep their
    names (\<open>NewGrid\<close>, \<open>cellRange\<close>, \<open>Remove\<close>, \<open>Query\<close>, ...);
    \<open>insert\<close> is \<open>insert_grid\<close> because HOL already has \<open>insert\<close>.
  \<^item> package \<open>hashgrid\<close> (\<open>src/hashgrid/grid.go\<close>): no reverse index, keys are
    recomputed from the entry's bounding box; names carry the prefix \<open>hashgrid_\<close>.
  \<^item> the \<open>hashgrid\<close> variant with a reverse index (\<open>src/unnamed/part_000\<close>);
    names that would clash carry the prefix \<open>part0_\<close>.

  Two more files repeat these: \<open>src/unnamed/part_002\<close> is package \<open>hash\<close> without
  padding and predicate (the same \<open>Query\<close>, \<open>Remove\<close>, \<open>Clear\<close>, \<open>Resize\<close>), and
  \<open>src/unnamed/part_001\<close> is the grid without reverse index with \<open>int\<close> coordinates
  and no padding (its \<open>Remove\<close> recomputes the keys as the one of package
  \<open>hashgrid\<close> does). They are not embedded a second time.

  Conventions of the embedding:
  \<^item> \<open>int32\<close> is \<open>32 word\<close>, read as two's complement by \<open>sint\<close> and compared by
    \<open><s\<close> and \<open>\<le>s\<close>; \<open>uint64\<close> is \<open>64 word\<close>; \<open>+\<close> and \<open>-\<close> wrap around.
  \<^item> a \<open>float32\<close> argument is the real number it denotes: the arguments of the
    operations are finite numbers, and a zero has no sign. The result of a division, a
    multiplication or an addition is rounded to the nearest \<open>float32\<close>, ties to even,
    each operation on its own, and is an \<open>xfloat32\<close>: a finite number, an infinity or
    NaN. Go leaves the conversion to \<open>int32\<close> of a value that is no \<open>int32\<close> to the
    implementation; the embedding follows the gc compiler on amd64, whose conversion
    yields the smallest \<open>int32\<close> for every such value. The theorems about cell ranges
    state that the cell coordinates are \<open>int32\<close> values (\<open>box_fits\<close>, \<open>in_range\<close>) and
    hold whatever the implementation does outside.
  \<^item> a Go map is a HOL map; reading a missing key of a map of slices gives the empty
    list, as Go gives the nil slice.
  \<^item> every method takes the grid and returns the new grid next to its result.
\<close>

subsection \<open>Key codec\<close>

type_synonym int32 = "32 word"
type_synonym uint64 = "64 word"
type_synonym float32 = real

text \<open>\<open>const offset = 1 << 31\<close>, used at type \<open>int64\<close>.\<close>

definition offset :: "64 word" where
  "offset = 0x80000000"

text \<open>
  \<open>EncodeGridKey\<close> is the same in \<open>src/hash/grid.go\<close>, \<open>src/hashgrid/grid.go\<close> and
  \<open>src/unnamed/part_000\<close>: \<open>int64(x)\<close> sign-extends, \<open>uint32(...)\<close> keeps the low 32 bits,
  \<open>uint64(...)\<close> zero-extends.
\<close>

definition EncodeGridKey :: "int32 \<Rightarrow> int32 \<Rightarrow> uint64" where
  "EncodeGridKey x y =
     (let upper = (ucast (ucast ((scast x :: 64 word) + offset) :: 32 word) :: 64 word);
          lower = (ucast (ucast ((scast y :: 64 word) + offset) :: 32 word) :: 64 word)
      in push_bit 32 upper OR lower)"

text \<open>\<open>DecodeGridKey\<close> of \<open>src/hash/grid.go\<close>: the halves are read as \<open>int32\<close> first.\<close>

definition DecodeGridKey :: "uint64 \<Rightarrow> int32 \<times> int32" where
  "DecodeGridKey key =
     (let upper = (ucast (drop_bit 32 key) :: 32 word);
          lower = (ucast (key AND 0xFFFFFFFF) :: 32 word);
          x = (ucast ((scast upper :: 64 word) - offset) :: 32 word);
          y = (ucast ((scast lower :: 64 word) - offset) :: 32 word)
      in (x, y))"

text \<open>
  \<open>DecodeGridKey\<close> of \<open>src/hashgrid/grid.go\<close> and \<open>src/unnamed/part_000\<close>: the halves are
  widened as \<open>uint32\<close>.
\<close>

definition hashgrid_DecodeGridKey :: "uint64 \<Rightarrow> int32 \<times> int32" where
  "hashgrid_DecodeGridKey key =
     (let x = (ucast ((ucast (ucast (drop_bit 32 key) :: 32 word) :: 64 word) - offset) :: 32 word);
          y = (ucast ((ucast (ucast key :: 32 word) :: 64 word) - offset) :: 32 word)
      in (x, y))"


subsection \<open>float32 arithmetic\<close>

text \<open>
  The value of a \<open>float32\<close> expression: a finite number, an infinity or NaN.
\<close>

datatype xfloat32 = Finite float32 | PosInf | NegInf | NaN

text \<open>Rounding a real to the nearest integer, a tie to the even one.\<close>

definition rne :: "real \<Rightarrow> int" where
  "rne r = (let f = \<lfloor>r\<rfloor>; d = r - of_int f
            in if d < 1 / 2 then f else if 1 / 2 < d then f + 1 else if even f then f else f + 1)"

text \<open>
  The binary exponent of a magnitude, searched upwards from \<open>e\<close> and not above 127:
  from \<open>- 126\<close> it is the exponent of the \<open>float32\<close> format, which is \<open>- 126\<close> for all
  subnormal magnitudes.
\<close>

function binade_from :: "int \<Rightarrow> real \<Rightarrow> int" where
  "binade_from e x = (if e < 127 \<and> power_int 2 (e + 1) \<le> x then binade_from (e + 1) x else e)"
  by pat_completeness auto
termination
  by (relation "measure (\<lambda>(e, x). nat (127 - e))") auto

declare binade_from.simps [simp del]

text \<open>
  The distance of neighbouring \<open>float32\<close> values around \<open>x\<close> (24 bits of precision), and
  the nearest multiple of it: the \<open>float32\<close> nearest to \<open>x\<close>, ties to even, as long as
  it does not exceed the largest \<open>float32\<close>.
\<close>

definition ulp32 :: "real \<Rightarrow> real" where
  "ulp32 x = power_int 2 (binade_from (- 126) \<bar>x\<bar> - 23)"

definition round32 :: "real \<Rightarrow> real" where
  "round32 x = of_int (rne (x / ulp32 x)) * ulp32 x"

definition MaxFloat32 :: real where
  "MaxFloat32 = (2 ^ 24 - 1) * 2 ^ 104"

text \<open>The \<open>float32\<close> value of an exact result: beyond the largest number it is an infinity.\<close>

definition to_float32 :: "real \<Rightarrow> xfloat32" where
  "to_float32 x =
     (let y = round32 x
      in if MaxFloat32 < y then PosInf else if y < - MaxFloat32 then NegInf else Finite y)"

text \<open>\<open>x / y\<close>, \<open>x * y\<close> and \<open>a + y\<close> on \<open>float32\<close>; \<open>float32(c)\<close> of an \<open>int32\<close>.\<close>

definition fdiv :: "float32 \<Rightarrow> float32 \<Rightarrow> xfloat32" where
  "fdiv x y =
     (if y = 0 then (if x = 0 then NaN else if 0 < x then PosInf else NegInf)
      else to_float32 (x / y))"

definition fmul :: "float32 \<Rightarrow> float32 \<Rightarrow> xfloat32" where
  "fmul x y = to_float32 (x * y)"

definition fadd :: "xfloat32 \<Rightarrow> float32 \<Rightarrow> xfloat32" where
  "fadd a y = (case a of Finite x \<Rightarrow> to_float32 (x + y) | _ \<Rightarrow> a)"

definition float32_of_int32 :: "int32 \<Rightarrow> float32" where
  "float32_of_int32 c = round32 (real_of_int (sint c))"

text \<open>
  The conversion to \<open>int32\<close> of a float with the integer value \<open>z\<close>; a value that is no
  \<open>int32\<close>, an infinity and NaN are converted to the smallest \<open>int32\<close>.
\<close>

definition MinInt32 :: int32 where
  "MinInt32 = - (2 ^ 31)"

definition int32_of :: "int \<Rightarrow> int32" where
  "int32_of z = (if - (2 ^ 31) \<le> z \<and> z < 2 ^ 31 then word_of_int z else MinInt32)"

subsection \<open>Loops over cell coordinates\<close>

text \<open>
  \<open>for c := lo; c < hi; c++ { body }\<close> on \<open>int32\<close>, with the loop's state threaded
  through the body. The counter never overflows: it is incremented only below \<open>hi\<close>.
\<close>

lemma sint_succ: "c <s hi \<Longrightarrow> sint (c + 1 :: 32 word) = sint c + 1"
proof -
  assume a: "c <s hi"
  have "sint c < sint hi" using a by (simp add: word_sless_alt)
  moreover have "sint hi < 2 ^ 31" using sint_lt [of hi] by simp
  moreover have "- (2 ^ 31) \<le> sint c" using sint_ge [of c] by simp
  ultimately have r: "- (2 ^ 31) \<le> sint c + 1" "sint c + 1 < 2 ^ 31" by simp_all
  have "sint (c + 1) = signed_take_bit 31 (sint c + sint (1 :: 32 word))"
    using sint_word_add [of c 1] by simp
  also have "\<dots> = signed_take_bit 31 (sint c + 1)" by simp
  also have "\<dots> = sint c + 1" using r by (simp add: signed_take_bit_int_eq_self)
  finally show ?thesis .
qed

function for32 :: "int32 \<Rightarrow> int32 \<Rightarrow> (int32 \<Rightarrow> 's \<Rightarrow> 's) \<Rightarrow> 's \<Rightarrow> 's" where
  "for32 c hi body s = (if c <s hi then for32 (c + 1) hi body (body c s) else s)"
  by pat_completeness auto
termination
  by (relation "measure (\<lambda>(c, hi, body, s). nat (sint hi - sint c))")
     (auto simp add: sint_succ word_sless_alt)

declare for32.simps [simp del]

subsection \<open>Package hash: the grid with reverse index and generation stamps\<close>

text \<open>
  \<open>int32(math.Floor(float64(v)))\<close> and \<open>int32(math.Ceil(float64(v)))\<close>: the conversion
  to \<open>float64\<close> is exact, and \<open>math.Floor\<close> and \<open>math.Ceil\<close> keep an infinity and NaN.
\<close>

definition floor32 :: "xfloat32 \<Rightarrow> int32" where
  "floor32 v = (case v of Finite r \<Rightarrow> int32_of \<lfloor>r\<rfloor> | _ \<Rightarrow> MinInt32)"

definition ceil32 :: "xfloat32 \<Rightarrow> int32" where
  "ceil32 v = (case v of Finite r \<Rightarrow> int32_of \<lceil>r\<rceil> | _ \<Rightarrow> MinInt32)"

type_synonym GridItemPadding = "8 word"

definition NoGridPadding :: GridItemPadding where
  "NoGridPadding = 0"

definition GridCellPadding :: GridItemPadding where
  "GridCellPadding = 1"

text \<open>\<open>GridInsertionFunc\<close>; a nil function is \<open>None\<close>.\<close>

type_synonym GridInsertionFunc = "xfloat32 \<Rightarrow> xfloat32 \<Rightarrow> xfloat32 \<Rightarrow> xfloat32 \<Rightarrow> bool"

record 'a Grid =
  gen :: uint64
  cellWidth :: float32
  cellHeight :: float32
  cells :: "uint64 \<rightharpoonup> 'a list"
  items :: "'a \<rightharpoonup> uint64"
  itemCells :: "'a \<rightharpoonup> uint64 list"
  qBuf :: "'a list"

text \<open>Reading \<open>g.cells[key]\<close>: the nil slice when the key is missing.\<close>

definition bucket :: "(uint64 \<rightharpoonup> 'a list) \<Rightarrow> uint64 \<Rightarrow> 'a list" where
  "bucket cs key = (case cs key of None \<Rightarrow> [] | Some es \<Rightarrow> es)"

text \<open>Reading \<open>g.items[item]\<close>: zero when the item is missing.\<close>

definition stamp :: "('a \<rightharpoonup> uint64) \<Rightarrow> 'a \<Rightarrow> uint64" where
  "stamp its item = (case its item of None \<Rightarrow> 0 | Some s \<Rightarrow> s)"

text \<open>\<open>NewGrid\<close> checks nothing and always returns a grid.\<close>

definition NewGrid :: "float32 \<Rightarrow> float32 \<Rightarrow> 'a Grid" where
  "NewGrid cw ch =
     \<lparr>gen = 0, cellWidth = cw, cellHeight = ch, cells = Map.empty, items = Map.empty,
      itemCells = Map.empty, qBuf = []\<rparr>"

definition cellRange ::
  "'a Grid \<Rightarrow> float32 \<Rightarrow> float32 \<Rightarrow> float32 \<Rightarrow> float32 \<Rightarrow> int32 \<times> int32 \<times> int32 \<times> int32" where
  "cellRange g minX minY maxX maxY =
     (floor32 (fdiv minX (cellWidth g)), floor32 (fdiv minY (cellHeight g)),
      ceil32 (fdiv maxX (cellWidth g)), ceil32 (fdiv maxY (cellHeight g)))"

definition Contains :: "'a Grid \<Rightarrow> 'a \<Rightarrow> bool" where
  "Contains g item = (items g item \<noteq> None)"

text \<open>The test of one cell in \<open>insert\<close>: \<open>doInsert\<close>.\<close>

definition doInsert :: "'a Grid \<Rightarrow> GridInsertionFunc option \<Rightarrow> int32 \<Rightarrow> int32 \<Rightarrow> bool" where
  "doInsert g fn cx cy =
     (case fn of
        None \<Rightarrow> True
      | Some f \<Rightarrow>
          (let cellMinX = fmul (float32_of_int32 cx) (cellWidth g);
               cellMinY = fmul (float32_of_int32 cy) (cellHeight g);
               cellMaxX = fadd cellMinX (cellWidth g);
               cellMaxY = fadd cellMinY (cellHeight g)
           in f cellMinX cellMinY cellMaxX cellMaxY))"

text \<open>
  The body of the inner loop of \<open>insert\<close>, on the pair of \<open>g.cells\<close> and \<open>cellKeys\<close>:
  \<open>g.cells[key] = append(g.cells[key], item); cellKeys = append(cellKeys, key)\<close>.
\<close>

definition insert_cell ::
  "'a \<Rightarrow> uint64 \<Rightarrow> (uint64 \<rightharpoonup> 'a list) \<times> uint64 list \<Rightarrow> (uint64 \<rightharpoonup> 'a list) \<times> uint64 list" where
  "insert_cell item key st = ((fst st)(key \<mapsto> bucket (fst st) key @ [item]), snd st @ [key])"

definition insert_grid ::
  "'a Grid \<Rightarrow> 'a \<Rightarrow> float32 \<Rightarrow> float32 \<Rightarrow> float32 \<Rightarrow> float32 \<Rightarrow> GridItemPadding
     \<Rightarrow> GridInsertionFunc option \<Rightarrow> bool \<times> 'a Grid" where
  "insert_grid g item minX minY maxX maxY padding fn =
     (if Contains g item then (False, g)
      else
        (let (minCellX, minCellY, maxCellX, maxCellY) = cellRange g minX minY maxX maxY;
             (minCellX, minCellY, maxCellX, maxCellY) =
               (if padding = GridCellPadding
                then (minCellX - 1, minCellY - 1, maxCellX + 1, maxCellY + 1)
                else (minCellX, minCellY, maxCellX, maxCellY));
             st = for32 minCellY maxCellY
                    (\<lambda>cy. for32 minCellX maxCellX
                       (\<lambda>cx st. if doInsert g fn cx cy
                                 then insert_cell item (EncodeGridKey cx cy) st else st))
                    (cells g, [])
         in (True, g\<lparr>cells := fst st,
                      items := (items g)(item \<mapsto> 0),
                      itemCells := (itemCells g)(item \<mapsto> snd st)\<rparr>)))"

definition Insert ::
  "'a Grid \<Rightarrow> 'a \<Rightarrow> float32 \<Rightarrow> float32 \<Rightarrow> float32 \<Rightarrow> float32 \<Rightarrow> GridItemPadding
     \<Rightarrow> bool \<times> 'a Grid" where
  "Insert g item minX minY maxX maxY padding = insert_grid g item minX minY maxX maxY padding None"

definition InsertFunc ::
  "'a Grid \<Rightarrow> 'a \<Rightarrow> float32 \<Rightarrow> float32 \<Rightarrow> float32 \<Rightarrow> float32 \<Rightarrow> GridItemPadding
     \<Rightarrow> GridInsertionFunc option \<Rightarrow> bool \<times> 'a Grid" where
  "InsertFunc g item minX minY maxX maxY padding fn =
     insert_grid g item minX minY maxX maxY padding fn"

text \<open>
  \<open>Clear\<close>: the three maps are emptied; \<open>clear(g.qBuf)\<close> keeps the length of the slice
  and sets its elements to the zero value of the item type.
\<close>

definition Clear :: "('a::zero) Grid \<Rightarrow> 'a Grid" where
  "Clear g =
     g\<lparr>cells := Map.empty, items := Map.empty, itemCells := Map.empty,
       qBuf := map (\<lambda>_. 0) (qBuf g), gen := 0\<rparr>"

definition Resize :: "('a::zero) Grid \<Rightarrow> float32 \<Rightarrow> float32 \<Rightarrow> 'a Grid" where
  "Resize g cw ch =
     (if cellWidth g = cw \<and> cellHeight g = ch then g
      else (Clear g)\<lparr>cellWidth := cw, cellHeight := ch\<rparr>)"

text \<open>
  The compaction loop of \<open>Remove\<close>, in place on the bucket's slice: \<open>i\<close> is the index
  the \<open>range\<close> loop reads, \<open>j\<close> the index it writes.
\<close>

function compact :: "'a \<Rightarrow> 'a list \<Rightarrow> nat \<Rightarrow> nat \<Rightarrow> 'a list \<times> nat" where
  "compact item buf i j =
     (if i < length buf
      then (let it = buf ! i
            in if it \<noteq> item then compact item (buf[j := it]) (i + 1) (j + 1)
               else compact item buf (i + 1) j)
      else (buf, j))"
  by pat_completeness auto
termination
  by (relation "measure (\<lambda>(item, buf, i, j). length buf - i)") auto

declare compact.simps [simp del]

text \<open>The body of the loop over \<open>cellKeys\<close> in \<open>Remove\<close>.\<close>

definition remove_from_cell ::
  "'a \<Rightarrow> uint64 \<Rightarrow> (uint64 \<rightharpoonup> 'a list) \<Rightarrow> (uint64 \<rightharpoonup> 'a list)" where
  "remove_from_cell item key cs =
     (let (buf, j) = compact item (bucket cs key) 0 0
      in if j = 0 then cs(key := None) else cs(key \<mapsto> take j buf))"

definition Remove :: "'a Grid \<Rightarrow> 'a \<Rightarrow> 'a Grid" where
  "Remove g item =
     (if \<not> Contains g item then g
      else
        (let cellKeys = (case itemCells g item of None \<Rightarrow> [] | Some ks \<Rightarrow> ks)
         in g\<lparr>items := (items g)(item := None),
              itemCells := (itemCells g)(item := None),
              cells := fold (remove_from_cell item) cellKeys (cells g)\<rparr>))"

text \<open>
  The body of the loop over a bucket in \<open>Query\<close>, on the pair of \<open>g.items\<close> and
  \<open>g.qBuf\<close>; \<open>gn\<close> is the generation of this query.
\<close>

definition visit_item ::
  "uint64 \<Rightarrow> 'a \<Rightarrow> ('a \<rightharpoonup> uint64) \<times> 'a list \<Rightarrow> ('a \<rightharpoonup> uint64) \<times> 'a list" where
  "visit_item gn item st =
     (if stamp (fst st) item \<noteq> gn then ((fst st)(item \<mapsto> gn), snd st @ [item]) else st)"

definition visit_cell ::
  "(uint64 \<rightharpoonup> 'a list) \<Rightarrow> uint64 \<Rightarrow> uint64 \<Rightarrow> ('a \<rightharpoonup> uint64) \<times> 'a list
     \<Rightarrow> ('a \<rightharpoonup> uint64) \<times> 'a list" where
  "visit_cell cs gn key st =
     (case cs key of None \<Rightarrow> st | Some es \<Rightarrow> fold (visit_item gn) es st)"

text \<open>\<open>Query\<close> returns \<open>g.qBuf\<close>; the result is the first component.\<close>

definition Query ::
  "'a Grid \<Rightarrow> float32 \<Rightarrow> float32 \<Rightarrow> float32 \<Rightarrow> float32 \<Rightarrow> 'a list \<times> 'a Grid" where
  "Query g minX minY maxX maxY =
     (let gn = gen g + 1;
          (minCellX, minCellY, maxCellX, maxCellY) = cellRange g minX minY maxX maxY;
          st = for32 minCellY maxCellY
                 (\<lambda>cy. for32 minCellX maxCellX
                    (\<lambda>cx. visit_cell (cells g) gn (EncodeGridKey cx cy)))
                 (items g, [])
      in (snd st, g\<lparr>gen := gn, items := fst st, qBuf := snd st\<rparr>))"

definition QueryCells ::
  "'a Grid \<Rightarrow> float32 \<Rightarrow> float32 \<Rightarrow> float32 \<Rightarrow> float32 \<Rightarrow> uint64 list" where
  "QueryCells g minX minY maxX maxY =
     (let (minCellX, minCellY, maxCellX, maxCellY) = cellRange g minX minY maxX maxY
      in for32 minCellY maxCellY
           (\<lambda>cy. for32 minCellX maxCellX
              (\<lambda>cx cellKeys.
                 if cells g (EncodeGridKey cx cy) \<noteq> None
                 then cellKeys @ [EncodeGridKey cx cy] else cellKeys))
           [])"

subsection \<open>Entries with a bounding box, panics, inclusive loops\<close>

text \<open>
  The interface \<open>GridEntry\<close> of package \<open>hashgrid\<close>: the methods \<open>Min\<close> and \<open>Max\<close> of
  the entries, as they answer at the time of a call. An entry is compared by identity
  (\<open>==\<close>); its box may change between two calls, then the two calls are given
  different methods.
\<close>

record 'a GridEntry =
  entry_Min :: "'a \<Rightarrow> float32 \<times> float32"
  entry_Max :: "'a \<Rightarrow> float32 \<times> float32"

datatype panic = Panic string

text \<open>The conversion \<open>int32(v)\<close> of a \<open>float32\<close>: truncation towards zero.\<close>

definition trunc32 :: "xfloat32 \<Rightarrow> int32" where
  "trunc32 v =
     (case v of
        Finite r \<Rightarrow> int32_of (if 0 \<le> r then \<lfloor>r\<rfloor> else \<lceil>r\<rceil>)
      | _ \<Rightarrow> MinInt32)"

text \<open>
  \<open>for c := lo; c <= hi; c++ { body }\<close> on \<open>int32\<close>. With \<open>hi\<close> the largest
  \<open>int32\<close> the counter wraps around and the loop never ends: the result is \<open>None\<close>.
\<close>

partial_function (option) for32_incl ::
  "int32 \<Rightarrow> int32 \<Rightarrow> (int32 \<Rightarrow> 's \<Rightarrow> 's option) \<Rightarrow> 's \<Rightarrow> 's option" where
  "for32_incl c hi body s =
     (if c \<le>s hi then Option.bind (body c s) (\<lambda>s'. for32_incl (c + 1) hi body s') else Some s)"

text \<open>
  The loop that removes the first occurrence of an entry from one bucket, in
  \<open>Remove\<close> of \<open>src/hashgrid/grid.go\<close> and of \<open>src/unnamed/part_000\<close>: \<open>index_of\<close> is
  the index \<open>j\<close> at which the inner loop breaks.
\<close>

fun index_of :: "'a \<Rightarrow> 'a list \<Rightarrow> nat option" where
  "index_of entry [] = None"
| "index_of entry (e # es) =
     (if e = entry then Some 0 else map_option Suc (index_of entry es))"

definition remove_first_from_cell ::
  "'a \<Rightarrow> uint64 \<Rightarrow> (uint64 \<rightharpoonup> 'a list) \<Rightarrow> (uint64 \<rightharpoonup> 'a list)" where
  "remove_first_from_cell entry key cs =
     (let entities = bucket cs key
      in case index_of entry entities of
           None \<Rightarrow> cs
         | Some j \<Rightarrow>
             (let rest = take j entities @ drop (j + 1) entities
              in if length rest = 0 then cs(key := None) else cs(key \<mapsto> rest)))"

subsection \<open>Package hashgrid: the grid without reverse index\<close>

type_synonym GridPadding = "8 word"

definition NoPadding :: GridPadding where "NoPadding = 0"
definition LeftPadding :: GridPadding where "LeftPadding = 1"
definition RightPadding :: GridPadding where "RightPadding = 2"
definition TopPadding :: GridPadding where "TopPadding = 4"
definition BottomPadding :: GridPadding where "BottomPadding = 8"
definition AllPadding :: GridPadding where
  "AllPadding = LeftPadding OR RightPadding OR TopPadding OR BottomPadding"

record 'a hashgrid_Grid =
  hashgrid_left :: "8 word"
  hashgrid_right :: "8 word"
  hashgrid_top :: "8 word"
  hashgrid_bottom :: "8 word"
  hashgrid_cellSize :: float32
  hashgrid_cells :: "uint64 \<rightharpoonup> 'a list"

definition NewWithPadding :: "float32 \<Rightarrow> GridPadding \<Rightarrow> panic + 'a hashgrid_Grid" where
  "NewWithPadding cellSize padding =
     (if cellSize \<le> 0 then Inl (Panic ''cellSize must be positive'')
      else Inr \<lparr>hashgrid_left = padding AND LeftPadding,
                hashgrid_right = drop_bit 1 (padding AND RightPadding),
                hashgrid_top = drop_bit 2 (padding AND TopPadding),
                hashgrid_bottom = drop_bit 3 (padding AND BottomPadding),
                hashgrid_cellSize = cellSize,
                hashgrid_cells = Map.empty\<rparr>)"

definition hashgrid_New :: "float32 \<Rightarrow> panic + 'a hashgrid_Grid" where
  "hashgrid_New cellSize = NewWithPadding cellSize NoPadding"

text \<open>The bounds \<open>startX, startY, endX, endY\<close> that \<open>GetKeys\<close> computes, both ends included.\<close>

definition hashgrid_GetKeys_range ::
  "'a GridEntry \<Rightarrow> 'a hashgrid_Grid \<Rightarrow> 'a \<Rightarrow> int32 \<times> int32 \<times> int32 \<times> int32" where
  "hashgrid_GetKeys_range m g entry =
     (let (minX, minY) = entry_Min m entry;
          (maxX, maxY) = entry_Max m entry;
          startX = trunc32 (fdiv minX (hashgrid_cellSize g)) - ucast (hashgrid_left g);
          startY = trunc32 (fdiv minY (hashgrid_cellSize g)) - ucast (hashgrid_top g);
          endX = (trunc32 (fdiv maxX (hashgrid_cellSize g)) - 1) + ucast (hashgrid_right g);
          endY = (trunc32 (fdiv maxY (hashgrid_cellSize g)) - 1) + ucast (hashgrid_bottom g)
      in (startX, startY, endX, endY))"

text \<open>\<open>GetKeys\<close>: \<open>None\<close> when one of the two inclusive loops does not end.\<close>

definition hashgrid_GetKeys ::
  "'a GridEntry \<Rightarrow> 'a hashgrid_Grid \<Rightarrow> 'a \<Rightarrow> uint64 list option" where
  "hashgrid_GetKeys m g entry =
     (let (startX, startY, endX, endY) = hashgrid_GetKeys_range m g entry
      in for32_incl startX endX
           (\<lambda>x. for32_incl startY endY (\<lambda>y keys. Some (keys @ [EncodeGridKey x y])))
           [])"

text \<open>The body of the loop over the keys in \<open>Insert\<close>: the entry is appended unless
  the bucket holds it already.\<close>

definition insert_unique ::
  "'a \<Rightarrow> uint64 \<Rightarrow> (uint64 \<rightharpoonup> 'a list) \<Rightarrow> (uint64 \<rightharpoonup> 'a list)" where
  "insert_unique entry key cs =
     (let entries = bucket cs key
      in if entry \<in> set entries then cs else cs(key \<mapsto> entries @ [entry]))"

text \<open>\<open>Insert\<close> and \<open>Remove\<close> return nothing; the model returns the new grid.\<close>

definition hashgrid_Insert ::
  "'a GridEntry \<Rightarrow> 'a hashgrid_Grid \<Rightarrow> 'a \<Rightarrow> 'a hashgrid_Grid option" where
  "hashgrid_Insert m g entry =
     (case hashgrid_GetKeys m g entry of
        None \<Rightarrow> None
      | Some keys \<Rightarrow> Some (g\<lparr>hashgrid_cells := fold (insert_unique entry) keys (hashgrid_cells g)\<rparr>))"

definition hashgrid_Remove ::
  "'a GridEntry \<Rightarrow> 'a hashgrid_Grid \<Rightarrow> 'a \<Rightarrow> 'a hashgrid_Grid option" where
  "hashgrid_Remove m g entry =
     (case hashgrid_GetKeys m g entry of
        None \<Rightarrow> None
      | Some keys \<Rightarrow>
          Some (g\<lparr>hashgrid_cells := fold (remove_first_from_cell entry) keys (hashgrid_cells g)\<rparr>))"

text \<open>
  The body of the loop over a bucket in \<open>Query\<close>, on the pair of \<open>seen\<close> and
  \<open>results\<close>: an entry not seen yet is reported when its box meets the rectangle.
\<close>

definition hashgrid_visit ::
  "'a GridEntry \<Rightarrow> float32 \<Rightarrow> float32 \<Rightarrow> float32 \<Rightarrow> float32 \<Rightarrow> 'a
     \<Rightarrow> 'a set \<times> 'a list \<Rightarrow> 'a set \<times> 'a list" where
  "hashgrid_visit m minX minY maxX maxY entry st =
     (if entry \<in> fst st then st
      else
        (let (eMinX, eMinY) = entry_Min m entry;
             (eMaxX, eMaxY) = entry_Max m entry
         in if eMaxX \<ge> minX \<and> eMinX \<le> maxX \<and> eMaxY \<ge> minY \<and> eMinY \<le> maxY
            then (insert entry (fst st), snd st @ [entry]) else st))"

text \<open>The cells \<open>Query\<close> scans: \<open>startX, startY, endX, endY\<close>, both ends included.\<close>

definition hashgrid_Query_range ::
  "'a hashgrid_Grid \<Rightarrow> float32 \<Rightarrow> float32 \<Rightarrow> float32 \<Rightarrow> float32
     \<Rightarrow> int32 \<times> int32 \<times> int32 \<times> int32" where
  "hashgrid_Query_range g minX minY maxX maxY =
     (trunc32 (fdiv minX (hashgrid_cellSize g)), trunc32 (fdiv minY (hashgrid_cellSize g)),
      trunc32 (fdiv maxX (hashgrid_cellSize g)), trunc32 (fdiv maxY (hashgrid_cellSize g)))"

definition hashgrid_Query ::
  "'a GridEntry \<Rightarrow> 'a hashgrid_Grid \<Rightarrow> float32 \<Rightarrow> float32 \<Rightarrow> float32 \<Rightarrow> float32
     \<Rightarrow> 'a list option" where
  "hashgrid_Query m g minX minY maxX maxY =
     (let (startX, startY, endX, endY) = hashgrid_Query_range g minX minY maxX maxY
      in map_option snd
           (for32_incl startX endX
              (\<lambda>x. for32_incl startY endY
                 (\<lambda>y st. Some (fold (hashgrid_visit m minX minY maxX maxY)
                                  (bucket (hashgrid_cells g) (EncodeGridKey x y)) st)))
              ({}, [])))"

definition hashgrid_Clear :: "'a hashgrid_Grid \<Rightarrow> 'a hashgrid_Grid" where
  "hashgrid_Clear g = g\<lparr>hashgrid_cells := Map.empty\<rparr>"

subsection \<open>The hashgrid variant with a reverse index (src/unnamed/part_000)\<close>

type_synonym CellCheckFunc = "xfloat32 \<Rightarrow> xfloat32 \<Rightarrow> xfloat32 \<Rightarrow> xfloat32 \<Rightarrow> bool"

record 'a part0_Grid =
  part0_cellSize :: float32
  part0_cells :: "uint64 \<rightharpoonup> 'a list"
  part0_cellKeys :: "'a \<rightharpoonup> uint64 list"
  part0_queryResults :: "'a list"
  part0_queryKeys :: "uint64 list"
  part0_getKeys :: "uint64 list"

definition part0_New :: "float32 \<Rightarrow> panic + 'a part0_Grid" where
  "part0_New cellSize =
     (if cellSize \<le> 0 then Inl (Panic ''cellSize must be positive'')
      else Inr \<lparr>part0_cellSize = cellSize, part0_cells = Map.empty, part0_cellKeys = Map.empty,
                part0_queryResults = [], part0_queryKeys = [], part0_getKeys = []\<rparr>)"

definition computeCellRange ::
  "float32 \<Rightarrow> float32 \<Rightarrow> float32 \<Rightarrow> float32 \<Rightarrow> float32 \<Rightarrow> int32 \<times> int32 \<times> int32 \<times> int32" where
  "computeCellRange minX minY maxX maxY cellSize =
     (floor32 (fdiv minX cellSize), floor32 (fdiv minY cellSize),
      ceil32 (fdiv maxX cellSize), ceil32 (fdiv maxY cellSize))"

text \<open>The test of one cell in \<open>getKeysInternal\<close>: false when the loop continues.\<close>

definition cell_checked :: "float32 \<Rightarrow> CellCheckFunc option \<Rightarrow> int32 \<Rightarrow> int32 \<Rightarrow> bool" where
  "cell_checked cellSize check x y =
     (case check of
        None \<Rightarrow> True
      | Some f \<Rightarrow>
          f (fmul (float32_of_int32 x) cellSize) (fmul (float32_of_int32 y) cellSize)
            (fmul (float32_of_int32 (x + 1)) cellSize) (fmul (float32_of_int32 (y + 1)) cellSize))"

definition getKeysInternal ::
  "'a GridEntry \<Rightarrow> 'a part0_Grid \<Rightarrow> 'a \<Rightarrow> CellCheckFunc option \<Rightarrow> uint64 list \<times> 'a part0_Grid" where
  "getKeysInternal m g entry check =
     (let (minX, minY) = entry_Min m entry;
          (maxX, maxY) = entry_Max m entry;
          (sX, sY, eX, eY) = computeCellRange minX minY maxX maxY (part0_cellSize g);
          keys = for32 sX eX
                   (\<lambda>x. for32 sY eY
                      (\<lambda>y keys. if cell_checked (part0_cellSize g) check x y
                                 then keys @ [EncodeGridKey x y] else keys))
                   []
      in (keys, g\<lparr>part0_getKeys := keys\<rparr>))"

text \<open>\<open>GetKeys\<close> returns a copy of the buffer.\<close>

definition part0_GetKeys ::
  "'a GridEntry \<Rightarrow> 'a part0_Grid \<Rightarrow> 'a \<Rightarrow> CellCheckFunc option \<Rightarrow> uint64 list \<times> 'a part0_Grid" where
  "part0_GetKeys m g entry check = getKeysInternal m g entry check"

definition append_entry ::
  "'a \<Rightarrow> uint64 \<Rightarrow> (uint64 \<rightharpoonup> 'a list) \<Rightarrow> (uint64 \<rightharpoonup> 'a list)" where
  "append_entry entry key cs = cs(key \<mapsto> bucket cs key @ [entry])"

definition InsertStrictCheck ::
  "'a GridEntry \<Rightarrow> 'a part0_Grid \<Rightarrow> 'a \<Rightarrow> CellCheckFunc option \<Rightarrow> bool \<times> 'a part0_Grid" where
  "InsertStrictCheck m g entry check =
     (if part0_cellKeys g entry \<noteq> None then (False, g)
      else
        (let (keys, g1) = part0_GetKeys m g entry check;
             g2 = g1\<lparr>part0_cellKeys := (part0_cellKeys g1)(entry \<mapsto> keys)\<rparr>
         in (True, g2\<lparr>part0_cells := fold (append_entry entry) keys (part0_cells g2)\<rparr>)))"

definition part0_Insert :: "'a GridEntry \<Rightarrow> 'a part0_Grid \<Rightarrow> 'a \<Rightarrow> bool \<times> 'a part0_Grid" where
  "part0_Insert m g entry = InsertStrictCheck m g entry None"

definition part0_Remove :: "'a part0_Grid \<Rightarrow> 'a \<Rightarrow> 'a part0_Grid" where
  "part0_Remove g entry =
     (case part0_cellKeys g entry of
        None \<Rightarrow> g
      | Some keys \<Rightarrow>
          g\<lparr>part0_cells := fold (remove_first_from_cell entry) keys (part0_cells g),
            part0_cellKeys := (part0_cellKeys g)(entry := None)\<rparr>)"

text \<open>\<open>QueryUnsafe\<close> returns the buffer \<open>g.queryResults\<close>; \<open>Query\<close> returns a copy.\<close>

definition QueryUnsafe ::
  "'a part0_Grid \<Rightarrow> float32 \<Rightarrow> float32 \<Rightarrow> float32 \<Rightarrow> float32 \<Rightarrow> 'a list \<times> 'a part0_Grid" where
  "QueryUnsafe g minX minY maxX maxY =
     (let (sX, sY, eX, eY) = computeCellRange minX minY maxX maxY (part0_cellSize g);
          results = for32 sX eX
                      (\<lambda>x. for32 sY eY
                         (\<lambda>y results.
                            case part0_cells g (EncodeGridKey x y) of
                              None \<Rightarrow> results
                            | Some entries \<Rightarrow>
                                fold (\<lambda>e rs. if e \<in> set rs then rs else rs @ [e]) entries results))
                      []
      in (results, g\<lparr>part0_queryResults := results\<rparr>))"

definition part0_Query ::
  "'a part0_Grid \<Rightarrow> float32 \<Rightarrow> float32 \<Rightarrow> float32 \<Rightarrow> float32 \<Rightarrow> 'a list \<times> 'a part0_Grid" where
  "part0_Query g minX minY maxX maxY = QueryUnsafe g minX minY maxX maxY"

definition part0_Clear :: "'a part0_Grid \<Rightarrow> 'a part0_Grid" where
  "part0_Clear g =
     g\<lparr>part0_cells := Map.empty, part0_cellKeys := Map.empty, part0_queryResults := [],
       part0_queryKeys := [], part0_getKeys := []\<rparr>"

subsection \<open>Notions used in the statements\<close>

text \<open>
  The values the counter of \<open>for32\<close> takes from \<open>lo\<close> up to, not including, \<open>hi\<close>, and
  the cells \<open>(cx, cy)\<close> that two nested loops visit, in the order of an outer loop
  over \<open>cy\<close> and an inner loop over \<open>cx\<close>.
\<close>

definition range32 :: "int32 \<Rightarrow> int32 \<Rightarrow> int32 list" where
  "range32 lo hi = map word_of_int [sint lo .. sint hi - 1]"

definition loop_cells :: "int32 \<Rightarrow> int32 \<Rightarrow> int32 \<Rightarrow> int32 \<Rightarrow> (int32 \<times> int32) list" where
  "loop_cells minCellX minCellY maxCellX maxCellY =
     map prod.swap (List.product (range32 minCellY maxCellY) (range32 minCellX maxCellX))"

text \<open>
  The keys that \<open>insert\<close> appends for a new item, in the order of its loops: the cell
  range of the box, widened by the padding, without the cells the predicate rejects.
\<close>

definition padded ::
  "GridItemPadding \<Rightarrow> int32 \<times> int32 \<times> int32 \<times> int32 \<Rightarrow> int32 \<times> int32 \<times> int32 \<times> int32" where
  "padded padding r =
     (case r of (minCellX, minCellY, maxCellX, maxCellY) \<Rightarrow>
        if padding = GridCellPadding
        then (minCellX - 1, minCellY - 1, maxCellX + 1, maxCellY + 1)
        else (minCellX, minCellY, maxCellX, maxCellY))"

definition claimed_keys ::
  "'a Grid \<Rightarrow> float32 \<Rightarrow> float32 \<Rightarrow> float32 \<Rightarrow> float32 \<Rightarrow> GridItemPadding
     \<Rightarrow> GridInsertionFunc option \<Rightarrow> uint64 list" where
  "claimed_keys g minX minY maxX maxY padding fn =
     (case padded padding (cellRange g minX minY maxX maxY) of
        (minCellX, minCellY, maxCellX, maxCellY) \<Rightarrow>
          map (\<lambda>p. EncodeGridKey (fst p) (snd p))
            (filter (\<lambda>p. doInsert g fn (fst p) (snd p))
               (loop_cells minCellX minCellY maxCellX maxCellY)))"

text \<open>
  The invariant of a bucket store \<open>cs\<close> and a reverse index \<open>ic\<close>: the key list of an
  entry has no duplicates and the entry is exactly once in the bucket of each of its
  keys; no bucket is empty; an entry found in a bucket is in the reverse index with the
  key of that bucket in its list. In package \<open>hash\<close> the stamp map \<open>items\<close> has the same
  entries as the reverse index \<open>itemCells\<close>.
\<close>

definition index_inv :: "(uint64 \<rightharpoonup> 'a list) \<Rightarrow> ('a \<rightharpoonup> uint64 list) \<Rightarrow> bool" where
  "index_inv cs ic \<longleftrightarrow>
     (\<forall>e K. ic e = Some K \<longrightarrow>
         distinct K \<and> (\<forall>k \<in> set K. count_list (bucket cs k) e = 1))
     \<and> (\<forall>k es. cs k = Some es \<longrightarrow> es \<noteq> [])
     \<and> (\<forall>k e. e \<in> set (bucket cs k) \<longrightarrow> (\<exists>K. ic e = Some K \<and> k \<in> set K))"

definition grid_inv :: "'a Grid \<Rightarrow> bool" where
  "grid_inv g \<longleftrightarrow> dom (itemCells g) = dom (items g) \<and> index_inv (cells g) (itemCells g)"

definition part0_inv :: "'a part0_Grid \<Rightarrow> bool" where
  "part0_inv g \<longleftrightarrow> index_inv (part0_cells g) (part0_cellKeys g)"

text \<open>The keys that \<open>getKeysInternal\<close> collects, in the order of its loops.\<close>

definition part0_claimed_keys ::
  "'a GridEntry \<Rightarrow> 'a part0_Grid \<Rightarrow> 'a \<Rightarrow> CellCheckFunc option \<Rightarrow> uint64 list" where
  "part0_claimed_keys m g entry check =
     (case computeCellRange (fst (entry_Min m entry)) (snd (entry_Min m entry))
             (fst (entry_Max m entry)) (snd (entry_Max m entry)) (part0_cellSize g) of
        (sX, sY, eX, eY) \<Rightarrow>
          map (\<lambda>p. EncodeGridKey (snd p) (fst p))
            (filter (\<lambda>p. cell_checked (part0_cellSize g) check (snd p) (fst p))
               (loop_cells sY sX eY eX)))"

text \<open>A bucket store whose buckets have no duplicates and are not empty.\<close>

definition tidy :: "(uint64 \<rightharpoonup> 'a list) \<Rightarrow> bool" where
  "tidy cs \<longleftrightarrow> (\<forall>k. distinct (bucket cs k) \<and> cs k \<noteq> Some [])"

text \<open>
  The keys that \<open>Query\<close> and \<open>QueryCells\<close> scan for a rectangle, in the order of the
  loops, and the entries of the buckets under these keys (with repetitions).
\<close>

definition query_keys :: "'a Grid \<Rightarrow> float32 \<Rightarrow> float32 \<Rightarrow> float32 \<Rightarrow> float32 \<Rightarrow> uint64 list" where
  "query_keys g minX minY maxX maxY =
     (case cellRange g minX minY maxX maxY of
        (minCellX, minCellY, maxCellX, maxCellY) \<Rightarrow>
          map (\<lambda>p. EncodeGridKey (fst p) (snd p)) (loop_cells minCellX minCellY maxCellX maxCellY))"

definition candidates :: "'a Grid \<Rightarrow> float32 \<Rightarrow> float32 \<Rightarrow> float32 \<Rightarrow> float32 \<Rightarrow> 'a list" where
  "candidates g minX minY maxX maxY =
     concat (map (bucket (cells g)) (query_keys g minX minY maxX maxY))"

text \<open>
  The state of the loop of \<open>Query\<close>: the buffer has no duplicates and its entries carry
  the stamp of this query.
\<close>

definition seen_ok :: "uint64 \<Rightarrow> ('a \<rightharpoonup> uint64) \<times> 'a list \<Rightarrow> bool" where
  "seen_ok gn st \<longleftrightarrow> distinct (snd st) \<and> (\<forall>e \<in> set (snd st). stamp (fst st) e = gn)"

text \<open>No stamp is above the generation counter.\<close>

definition stamps_ok :: "'a Grid \<Rightarrow> bool" where
  "stamps_ok g \<longleftrightarrow> (\<forall>e s. items g e = Some s \<longrightarrow> s \<le> gen g)"

text \<open>
  The entry \<open>e\<close> is stored in the bucket of every cell of the cell range of a box, as
  it is after \<open>Insert\<close> with that box.
\<close>

definition covers :: "'a Grid \<Rightarrow> 'a \<Rightarrow> float32 \<Rightarrow> float32 \<Rightarrow> float32 \<Rightarrow> float32 \<Rightarrow> bool" where
  "covers g e minX minY maxX maxY \<longleftrightarrow>
     (\<forall>key \<in> set (query_keys g minX minY maxX maxY). e \<in> set (bucket (cells g) key))"

text \<open>Two boxes overlap with positive width and positive height.\<close>

definition overlaps ::
  "float32 \<Rightarrow> float32 \<Rightarrow> float32 \<Rightarrow> float32 \<Rightarrow> float32 \<Rightarrow> float32 \<Rightarrow> float32 \<Rightarrow> float32 \<Rightarrow> bool" where
  "overlaps aMinX aMinY aMaxX aMaxY bMinX bMinY bMaxX bMaxY \<longleftrightarrow>
     max aMinX bMinX < min aMaxX bMaxX \<and> max aMinY bMinY < min aMaxY bMaxY"

text \<open>
  The same of the two boxes in cell units, as the grid computes them: each coordinate
  divided by the cell size in \<open>float32\<close> arithmetic.
\<close>

definition quotients_overlap ::
  "'a Grid \<Rightarrow> float32 \<Rightarrow> float32 \<Rightarrow> float32 \<Rightarrow> float32 \<Rightarrow> float32 \<Rightarrow> float32 \<Rightarrow> float32 \<Rightarrow> float32
     \<Rightarrow> bool" where
  "quotients_overlap g aMinX aMinY aMaxX aMaxY bMinX bMinY bMaxX bMaxY \<longleftrightarrow>
     overlaps (round32 (aMinX / cellWidth g)) (round32 (aMinY / cellHeight g))
       (round32 (aMaxX / cellWidth g)) (round32 (aMaxY / cellHeight g))
       (round32 (bMinX / cellWidth g)) (round32 (bMinY / cellHeight g))
       (round32 (bMaxX / cellWidth g)) (round32 (bMaxY / cellHeight g))"

text \<open>
  The cell sizes are positive and the four cell coordinates of a box, the floors and
  ceilings of the \<open>float32\<close> quotients, are \<open>int32\<close> values.
\<close>

definition fits32 :: "int \<Rightarrow> bool" where
  "fits32 z \<longleftrightarrow> - (2 ^ 31) \<le> z \<and> z < 2 ^ 31"

definition box_fits :: "float32 \<Rightarrow> float32 \<Rightarrow> float32 \<Rightarrow> float32 \<Rightarrow> float32 \<Rightarrow> float32 \<Rightarrow> bool" where
  "box_fits cw ch minX minY maxX maxY \<longleftrightarrow>
     0 < cw \<and> 0 < ch
     \<and> fits32 \<lfloor>round32 (minX / cw)\<rfloor> \<and> fits32 \<lfloor>round32 (minY / ch)\<rfloor>
     \<and> fits32 \<lceil>round32 (maxX / cw)\<rceil> \<and> fits32 \<lceil>round32 (maxY / ch)\<rceil>"

text \<open>
  The same with one cell to spare on each side for the padding: the cell sizes of the
  grid are positive and the four cell coordinates of a box lie strictly inside the
  \<open>int32\<close> range.
\<close>

definition inside32 :: "int \<Rightarrow> bool" where
  "inside32 z \<longleftrightarrow> - (2 ^ 31) < z \<and> z < 2 ^ 31 - 1"

definition in_range :: "'a Grid \<Rightarrow> float32 \<Rightarrow> float32 \<Rightarrow> float32 \<Rightarrow> float32 \<Rightarrow> bool" where
  "in_range g minX minY maxX maxY \<longleftrightarrow>
     0 < cellWidth g \<and> 0 < cellHeight g
     \<and> inside32 \<lfloor>round32 (minX / cellWidth g)\<rfloor> \<and> inside32 \<lfloor>round32 (minY / cellHeight g)\<rfloor>
     \<and> inside32 \<lceil>round32 (maxX / cellWidth g)\<rceil> \<and> inside32 \<lceil>round32 (maxY / cellHeight g)\<rceil>"

text \<open>The grids that the operations of package \<open>hash\<close> and of part_000 can build.\<close>

inductive reachable :: "('a::zero) Grid \<Rightarrow> bool" where
  "reachable (NewGrid cw ch)"
| "reachable g \<Longrightarrow> reachable (snd (insert_grid g item minX minY maxX maxY padding fn))"
| "reachable g \<Longrightarrow> reachable (Remove g item)"
| "reachable g \<Longrightarrow> reachable (snd (Query g minX minY maxX maxY))"
| "reachable g \<Longrightarrow> reachable (Clear g)"
| "reachable g \<Longrightarrow> reachable (Resize g cw ch)"

inductive part0_reachable :: "'a part0_Grid \<Rightarrow> bool" where
  "part0_New cellSize = Inr g \<Longrightarrow> part0_reachable g"
| "part0_reachable g \<Longrightarrow> part0_reachable (snd (part0_GetKeys m g entry check))"
| "part0_reachable g \<Longrightarrow> part0_reachable (snd (InsertStrictCheck m g entry check))"
| "part0_reachable g \<Longrightarrow> part0_reachable (part0_Remove g entry)"
| "part0_reachable g \<Longrightarrow> part0_reachable (snd (QueryUnsafe g minX minY maxX maxY))"
| "part0_reachable g \<Longrightarrow> part0_reachable (part0_Clear g)"

section \<open>Properties\<close>

subsection \<open>Key codec\<close>

lemma down_wi: "(ucast (word_of_int k :: 64 word) :: 32 word) = word_of_int k"
  by (simp add: unsigned_of_int word_of_int_eq_iff min_def)

lemma down_add: "(ucast ((a :: 64 word) + b) :: 32 word) = ucast a + ucast b"
proof -
  have "(ucast (word_of_int (uint a + uint b) :: 64 word) :: 32 word) = word_of_int (uint a + uint b)"
    by (rule down_wi)
  moreover have "(word_of_int (uint a + uint b) :: 64 word) = a + b"
    by (simp only: wi_hom_add [symmetric] word_of_int_uint)
  moreover have "(word_of_int (uint a + uint b) :: 32 word) = ucast a + ucast b"
    by (simp only: wi_hom_add [symmetric] ucast_eq)
  ultimately show ?thesis by simp
qed

lemma down_diff: "(ucast ((a :: 64 word) - b) :: 32 word) = ucast a - ucast b"
proof -
  have "(ucast (word_of_int (uint a - uint b) :: 64 word) :: 32 word) = word_of_int (uint a - uint b)"
    by (rule down_wi)
  moreover have "(word_of_int (uint a - uint b) :: 64 word) = a - b"
    by (simp only: wi_hom_sub [symmetric] word_of_int_uint)
  moreover have "(word_of_int (uint a - uint b) :: 32 word) = ucast a - ucast b"
    by (simp only: wi_hom_sub [symmetric] ucast_eq)
  ultimately show ?thesis by simp
qed

lemma down_scast: "(ucast (scast (x :: 32 word) :: 64 word) :: 32 word) = x"
proof -
  have "(ucast (word_of_int (sint x) :: 64 word) :: 32 word) = word_of_int (sint x)"
    by (rule down_wi)
  then show ?thesis by (simp only: of_int_sint scast_id)
qed

lemma down_ucast: "(ucast (ucast (x :: 32 word) :: 64 word) :: 32 word) = x"
  by (simp add: ucast_up_ucast_id is_up)

lemma down_offset: "(ucast offset :: 32 word) = 0x80000000"
  by (simp add: offset_def)

lemma hi_part:
  "(ucast (drop_bit 32 (push_bit 32 (ucast (u :: 32 word) :: 64 word) OR ucast (l :: 32 word))) :: 32 word) = u"
  by (rule bit_word_eqI) (auto simp add: bit_simps dest: bit_imp_le_length)

lemma lo_part_trunc:
  "(ucast (push_bit 32 (ucast (u :: 32 word) :: 64 word) OR ucast (l :: 32 word)) :: 32 word) = l"
  by (rule bit_word_eqI) (auto simp add: bit_simps)

lemma lo_part_mask:
  "(ucast ((push_bit 32 (ucast (u :: 32 word) :: 64 word) OR ucast (l :: 32 word)) AND 0xFFFFFFFF) :: 32 word) = l"
proof -
  have m: "(0xFFFFFFFF :: 64 word) = mask 32"
    by (simp add: mask_eq_exp_minus_1)
  show ?thesis
    unfolding m by (rule bit_word_eqI) (auto simp add: bit_simps)
qed

lemma bias: "(ucast ((scast (x :: 32 word) :: 64 word) + offset) :: 32 word) = x + 0x80000000"
  by (simp only: down_add down_scast down_offset)

lemma unbias_signed:
  "(ucast ((scast (u :: 32 word) :: 64 word) - offset) :: 32 word) = u - 0x80000000"
  by (simp only: down_diff down_scast down_offset)

lemma unbias_unsigned:
  "(ucast ((ucast (u :: 32 word) :: 64 word) - offset) :: 32 word) = u - 0x80000000"
  by (simp only: down_diff down_ucast down_offset)

lemma EncodeGridKey_biased:
  "EncodeGridKey x y = push_bit 32 (ucast (x + 0x80000000)) OR ucast (y + 0x80000000)"
  unfolding EncodeGridKey_def Let_def bias by (rule refl)

lemma Decode_Encode: "DecodeGridKey (EncodeGridKey x y) = (x, y)"
  unfolding DecodeGridKey_def EncodeGridKey_biased Let_def hi_part lo_part_mask unbias_signed
  by simp

lemma hashgrid_Decode_Encode: "hashgrid_DecodeGridKey (EncodeGridKey x y) = (x, y)"
  unfolding hashgrid_DecodeGridKey_def EncodeGridKey_biased Let_def hi_part lo_part_trunc
    unbias_unsigned
  by simp

lemma EncodeGridKey_inj: "EncodeGridKey x y = EncodeGridKey x' y' \<longleftrightarrow> x = x' \<and> y = y'"
  by (metis Decode_Encode prod.inject)

text \<open>
  C5: for every cell coordinate pair \<open>(cx, cy)\<close> of \<open>int32\<close> values, that is every pair
  in \<open>[-2^31, 2^31 - 1]\<close> per axis, decoding the encoded key gives the pair back. This
  holds for the decoder of package \<open>hash\<close> and for the decoder of package \<open>hashgrid\<close>.
\<close>

theorem codec_round_trip:
  "DecodeGridKey (EncodeGridKey cx cy) = (cx, cy)
   \<and> hashgrid_DecodeGridKey (EncodeGridKey cx cy) = (cx, cy)"
  using Decode_Encode [of cx cy] hashgrid_Decode_Encode [of cx cy] by simp

subsection \<open>Loops, insertion, removal and query of package hash\<close>

lemma sint_wi: "- (2 ^ 31) \<le> z \<Longrightarrow> z < 2 ^ 31 \<Longrightarrow> sint (word_of_int z :: 32 word) = z"
  by (simp add: sint_sbintrunc' signed_take_bit_int_eq_self)

lemma sint_bounds: "- (2 ^ 31) \<le> sint (c :: 32 word)" "sint (c :: 32 word) < 2 ^ 31"
  using sint_ge [of c] sint_lt [of c] by simp_all

lemma range32_step: "c <s hi \<Longrightarrow> range32 c hi = c # range32 (c + 1) hi"
proof -
  assume a: "c <s hi"
  then have "sint c \<le> sint hi - 1" by (simp add: word_sless_alt)
  then have "[sint c .. sint hi - 1] = sint c # [sint c + 1 .. sint hi - 1]"
    by (simp add: upto_rec1)
  then show ?thesis using a by (simp add: range32_def sint_succ)
qed

lemma range32_stop: "\<not> c <s hi \<Longrightarrow> range32 c hi = []"
  by (simp add: range32_def word_sless_alt)

lemma for32_fold_state: "for32 c hi body s = fold body (range32 c hi) s"
proof (induction c hi body s rule: for32.induct)
  case (1 c hi body s)
  show ?case
  proof (cases "c <s hi")
    case True
    then show ?thesis using 1 by (subst for32.simps) (simp add: range32_step)
  next
    case False
    then show ?thesis by (subst for32.simps) (simp add: range32_stop)
  qed
qed

lemma for32_fold: "for32 c hi body = fold body (range32 c hi)"
  by (rule ext) (rule for32_fold_state)

lemma set_range32: "set (range32 lo hi) = {c. lo \<le>s c \<and> c <s hi}"
proof (rule set_eqI)
  fix x :: int32
  show "x \<in> set (range32 lo hi) \<longleftrightarrow> x \<in> {c. lo \<le>s c \<and> c <s hi}"
  proof
    assume "x \<in> set (range32 lo hi)"
    then obtain z where z: "x = word_of_int z" "sint lo \<le> z" "z \<le> sint hi - 1"
      by (auto simp add: range32_def)
    have "sint x = z"
      using z sint_bounds [of lo] sint_bounds [of hi] by (simp add: sint_wi)
    then show "x \<in> {c. lo \<le>s c \<and> c <s hi}"
      using z by (simp add: word_sle_eq word_sless_alt)
  next
    assume "x \<in> {c. lo \<le>s c \<and> c <s hi}"
    then have "sint lo \<le> sint x" "sint x \<le> sint hi - 1"
      by (simp_all add: word_sle_eq word_sless_alt)
    then have "sint x \<in> set [sint lo .. sint hi - 1]" by simp
    then have "word_of_int (sint x) \<in> set (range32 lo hi)"
      unfolding range32_def by (simp only: set_map image_eqI)
    then show "x \<in> set (range32 lo hi)" by simp
  qed
qed

lemma distinct_range32: "distinct (range32 lo hi)"
proof -
  have "inj_on (word_of_int :: int \<Rightarrow> 32 word) (set [sint lo .. sint hi - 1])"
  proof (rule inj_onI)
    fix a b :: int
    assume a: "a \<in> set [sint lo .. sint hi - 1]" and b: "b \<in> set [sint lo .. sint hi - 1]"
      and e: "(word_of_int a :: 32 word) = word_of_int b"
    have "sint (word_of_int a :: 32 word) = a"
      using a sint_bounds [of lo] sint_bounds [of hi] by (simp add: sint_wi)
    moreover have "sint (word_of_int b :: 32 word) = b"
      using b sint_bounds [of lo] sint_bounds [of hi] by (simp add: sint_wi)
    moreover have "sint (word_of_int a :: 32 word) = sint (word_of_int b :: 32 word)"
      using e by (rule arg_cong)
    ultimately show "a = b" by linarith
  qed
  then show ?thesis by (simp add: range32_def distinct_map)
qed

lemma nested_for32:
  "for32 minCellY maxCellY (\<lambda>cy. for32 minCellX maxCellX (\<lambda>cx. f cx cy)) s
   = fold (\<lambda>(cx, cy). f cx cy) (loop_cells minCellX minCellY maxCellX maxCellY) s"
proof -
  have inner: "fold (\<lambda>cy. fold (\<lambda>cx. f cx cy) xs) ys s
      = fold (\<lambda>(cx, cy). f cx cy) (map prod.swap (List.product ys xs)) s"
    for xs :: "int32 list" and ys s
  proof (induction ys arbitrary: s)
    case Nil
    show ?case by simp
  next
    case (Cons y ys)
    have "fold (\<lambda>(cx, cy). f cx cy) (map prod.swap (map (Pair y) xs)) s = fold (\<lambda>cx. f cx y) xs s" for s
      by (simp add: fold_map comp_def)
    then show ?case using Cons by simp
  qed
  show ?thesis
    by (simp add: for32_fold loop_cells_def inner)
qed

lemma set_loop_cells:
  "set (loop_cells minCellX minCellY maxCellX maxCellY)
   = {(cx, cy). minCellX \<le>s cx \<and> cx <s maxCellX \<and> minCellY \<le>s cy \<and> cy <s maxCellY}"
  by (auto simp add: loop_cells_def set_range32)

lemma distinct_loop_cells: "distinct (loop_cells minCellX minCellY maxCellX maxCellY)"
  by (simp add: loop_cells_def distinct_map distinct_product distinct_range32)

lemma fold_filter_map:
  "fold (\<lambda>p st. if P p then F (h p) st else st) ps s = fold F (map h (filter P ps)) s"
  by (induction ps arbitrary: s) simp_all

lemma fold_insert_cell:
  "distinct ks \<Longrightarrow>
   fold (insert_cell item) ks (cs, acc)
   = ((\<lambda>k. if k \<in> set ks then Some (bucket cs k @ [item]) else cs k), acc @ ks)"
proof (induction ks arbitrary: cs acc)
  case Nil
  show ?case by simp
next
  case (Cons k ks)
  have b: "bucket (cs(k \<mapsto> bucket cs k @ [item])) k' = bucket cs k'" if "k' \<noteq> k" for k'
    using that by (simp add: bucket_def)
  have "fold (insert_cell item) (k # ks) (cs, acc)
      = fold (insert_cell item) ks (cs(k \<mapsto> bucket cs k @ [item]), acc @ [k])"
    by (simp add: insert_cell_def)
  also have "\<dots> = ((\<lambda>k'. if k' \<in> set ks then Some (bucket (cs(k \<mapsto> bucket cs k @ [item])) k' @ [item])
                        else (cs(k \<mapsto> bucket cs k @ [item])) k'), (acc @ [k]) @ ks)"
    using Cons by simp
  also have "\<dots> = ((\<lambda>k'. if k' \<in> set (k # ks) then Some (bucket cs k' @ [item]) else cs k'), acc @ k # ks)"
    using Cons.prems by (auto simp add: fun_eq_iff bucket_def)
  finally show ?case .
qed

lemma distinct_claimed_keys: "distinct (claimed_keys g minX minY maxX maxY padding fn)"
proof -
  have "inj_on (\<lambda>p. EncodeGridKey (fst p) (snd p)) A" for A
    by (rule inj_onI) (simp add: EncodeGridKey_inj prod_eq_iff)
  then show ?thesis
    by (simp add: claimed_keys_def distinct_map distinct_loop_cells split: prod.splits)
qed

lemma insert_grid_absent:
  assumes "\<not> Contains g item"
  shows "insert_grid g item minX minY maxX maxY padding fn =
     (True, g\<lparr>cells := (\<lambda>k. if k \<in> set (claimed_keys g minX minY maxX maxY padding fn)
                            then Some (bucket (cells g) k @ [item]) else cells g k),
              items := (items g)(item \<mapsto> 0),
              itemCells := (itemCells g)(item \<mapsto> claimed_keys g minX minY maxX maxY padding fn)\<rparr>)"
proof -
  obtain a b c d where r: "padded padding (cellRange g minX minY maxX maxY) = (a, b, c, d)"
    by (cases "padded padding (cellRange g minX minY maxX maxY)") auto
  let ?K = "claimed_keys g minX minY maxX maxY padding fn"
  have K: "?K = map (\<lambda>p. EncodeGridKey (fst p) (snd p))
            (filter (\<lambda>p. doInsert g fn (fst p) (snd p)) (loop_cells a b c d))"
    by (simp add: claimed_keys_def r)
  have loop: "for32 b d
      (\<lambda>cy. for32 a c
         (\<lambda>cx st. if doInsert g fn cx cy
                   then insert_cell item (EncodeGridKey cx cy) st else st))
      (cells g, [])
    = fold (insert_cell item) ?K (cells g, [])"
    unfolding K nested_for32
    by (simp add: case_prod_unfold fold_filter_map [symmetric])
  have st: "fold (insert_cell item) ?K (cells g, [])
    = ((\<lambda>k. if k \<in> set ?K then Some (bucket (cells g) k @ [item]) else cells g k), ?K)"
    using fold_insert_cell [OF distinct_claimed_keys, of item g minX minY maxX maxY padding fn "cells g" "[]"]
    by simp
  have sel: "insert_grid g item minX minY maxX maxY padding fn =
    (let st = for32 b d
      (\<lambda>cy. for32 a c
         (\<lambda>cx st. if doInsert g fn cx cy
                   then insert_cell item (EncodeGridKey cx cy) st else st))
      (cells g, [])
     in (True, g\<lparr>cells := fst st, items := (items g)(item \<mapsto> 0),
                  itemCells := (itemCells g)(item \<mapsto> snd st)\<rparr>))"
    using assms r
    by (auto simp add: insert_grid_def padded_def Let_def split: prod.splits if_splits)
  show ?thesis unfolding sel loop st by (simp add: Let_def)
qed

lemma compact_spec:
  "j \<le> i \<Longrightarrow> i \<le> length buf \<Longrightarrow> compact item buf i j = (buf', j') \<Longrightarrow>
   length buf' = length buf \<and> j' \<le> length buf'
   \<and> take j' buf' = take j buf @ filter (\<lambda>x. x \<noteq> item) (drop i buf)"
proof (induction item buf i j rule: compact.induct)
  case (1 item buf i j)
  show ?case
  proof (cases "i < length buf")
    case False
    then have "compact item buf i j = (buf, j)" by (subst compact.simps) simp
    then show ?thesis using 1(3,4,5) False by simp
  next
    case True
    have d: "drop i buf = buf ! i # drop (Suc i) buf"
      using True by (simp add: Cons_nth_drop_Suc)
    show ?thesis
    proof (cases "buf ! i \<noteq> item")
      case keep: True
      have c: "compact item buf i j = compact item (buf[j := buf ! i]) (i + 1) (j + 1)"
        using True keep by (subst compact.simps) (simp add: Let_def)
      have ih: "length buf' = length (buf[j := buf ! i]) \<and> j' \<le> length buf'
        \<and> take j' buf' = take (j + 1) (buf[j := buf ! i])
              @ filter (\<lambda>x. x \<noteq> item) (drop (i + 1) (buf[j := buf ! i]))"
        using 1(1) [OF True refl keep] 1(3,4,5) True c by simp
      have t: "take (Suc j) (buf[j := buf ! i]) = take j buf @ [buf ! i]"
        using 1(3) True by (simp add: take_Suc_conv_app_nth)
      have dr: "drop (Suc i) (buf[j := buf ! i]) = drop (Suc i) buf"
        using 1(3) by simp
      show ?thesis using ih keep by (simp add: t dr d)
    next
      case drop: False
      have c: "compact item buf i j = compact item buf (i + 1) j"
        using True drop by (subst compact.simps) (simp add: Let_def)
      have ih: "length buf' = length buf \<and> j' \<le> length buf'
        \<and> take j' buf' = take j buf @ filter (\<lambda>x. x \<noteq> item) (drop (i + 1) buf)"
        using 1(2) [OF True refl] drop 1(3,4,5) True c by simp
      show ?thesis using ih drop by (simp add: d)
    qed
  qed
qed

lemma remove_from_cell_filter:
  "remove_from_cell item key cs =
     (if filter (\<lambda>x. x \<noteq> item) (bucket cs key) = [] then cs(key := None)
      else cs(key \<mapsto> filter (\<lambda>x. x \<noteq> item) (bucket cs key)))"
proof -
  obtain buf j where c: "compact item (bucket cs key) 0 0 = (buf, j)"
    by (cases "compact item (bucket cs key) 0 0") auto
  have s: "j \<le> length buf" "take j buf = filter (\<lambda>x. x \<noteq> item) (bucket cs key)"
    using compact_spec [of 0 0 "bucket cs key" item buf j] c by simp_all
  have "j = 0 \<longleftrightarrow> filter (\<lambda>x. x \<noteq> item) (bucket cs key) = []"
    using s by (metis length_0_conv length_take min.absorb2 take_eq_Nil)
  then show ?thesis
    by (simp add: remove_from_cell_def c s)
qed

lemma bucket_remove_from_cell:
  "bucket (remove_from_cell item key cs) k =
     (if k = key then filter (\<lambda>x. x \<noteq> item) (bucket cs key) else bucket cs k)"
  by (simp add: remove_from_cell_filter bucket_def)

lemma filter_bucket_remove_from_cell:
  "filter (\<lambda>x. x \<noteq> item) (bucket (remove_from_cell item key cs) k)
   = filter (\<lambda>x. x \<noteq> item) (bucket cs k)"
  by (simp add: bucket_remove_from_cell)

lemma remove_from_cell_apply:
  "remove_from_cell item key cs k =
     (if k = key
      then (if filter (\<lambda>x. x \<noteq> item) (bucket cs key) = [] then None
            else Some (filter (\<lambda>x. x \<noteq> item) (bucket cs key)))
      else cs k)"
  by (simp add: remove_from_cell_filter)

lemma fold_remove_from_cell:
  "fold (remove_from_cell item) ks cs =
     (\<lambda>k. if k \<in> set ks
          then (if filter (\<lambda>x. x \<noteq> item) (bucket cs k) = [] then None
                else Some (filter (\<lambda>x. x \<noteq> item) (bucket cs k)))
          else cs k)"
proof (induction ks arbitrary: cs)
  case Nil
  show ?case by simp
next
  case (Cons k ks)
  show ?case
    unfolding fold_Cons comp_def Cons filter_bucket_remove_from_cell
    by (rule ext) (simp add: remove_from_cell_apply)
qed

lemma visit_cell_bucket: "visit_cell cs gn key = fold (visit_item gn) (bucket cs key)"
  by (rule ext) (simp add: visit_cell_def bucket_def split: option.splits)

lemma fold_fold_concat: "fold (\<lambda>k. fold f (h k)) ks s = fold f (concat (map h ks)) s"
  by (induction ks arbitrary: s) simp_all

lemma Query_fold:
  "Query g minX minY maxX maxY =
     (let st = fold (visit_item (gen g + 1)) (candidates g minX minY maxX maxY) (items g, [])
      in (snd st, g\<lparr>gen := gen g + 1, items := fst st, qBuf := snd st\<rparr>))"
proof -
  obtain a b c d where r: "cellRange g minX minY maxX maxY = (a, b, c, d)"
    by (cases "cellRange g minX minY maxX maxY") auto
  have "for32 b d (\<lambda>cy. for32 a c (\<lambda>cx. visit_cell (cells g) (gen g + 1) (EncodeGridKey cx cy))) s
      = fold (visit_item (gen g + 1)) (candidates g minX minY maxX maxY) s" for s
    unfolding nested_for32 candidates_def query_keys_def r
    by (simp add: case_prod_unfold visit_cell_bucket fold_fold_concat [symmetric] fold_map comp_def)
  then show ?thesis
    by (simp add: Query_def r Let_def)
qed

lemma visit_item_step:
  assumes "seen_ok gn st"
  shows "seen_ok gn (visit_item gn x st)"
    and "set (snd (visit_item gn x st)) = set (snd st) \<union> (if stamp (fst st) x \<noteq> gn then {x} else {})"
    and "stamp (fst (visit_item gn x st)) e = gn \<longleftrightarrow> stamp (fst st) e = gn \<or> e = x"
    and "e \<noteq> x \<Longrightarrow> fst (visit_item gn x st) e = fst st e"
    and "dom (fst (visit_item gn x st)) = dom (fst st) \<union> (if stamp (fst st) x \<noteq> gn then {x} else {})"
  using assms by (auto simp add: seen_ok_def visit_item_def stamp_def split: if_splits option.splits)

lemma fold_visit_item:
  assumes "seen_ok gn st"
  shows "seen_ok gn (fold (visit_item gn) es st)
    \<and> set (snd (fold (visit_item gn) es st)) = set (snd st) \<union> {e \<in> set es. stamp (fst st) e \<noteq> gn}
    \<and> (\<forall>e. stamp (fst (fold (visit_item gn) es st)) e = gn \<longleftrightarrow> stamp (fst st) e = gn \<or> e \<in> set es)
    \<and> (\<forall>e. e \<notin> set es \<longrightarrow> fst (fold (visit_item gn) es st) e = fst st e)
    \<and> dom (fst (fold (visit_item gn) es st)) = dom (fst st) \<union> {e \<in> set es. stamp (fst st) e \<noteq> gn}"
  using assms
proof (induction es arbitrary: st)
  case Nil
  then show ?case by simp
next
  case (Cons x es)
  let ?s = "visit_item gn x st"
  note s = visit_item_step [OF Cons.prems, where x = x]
  note ih = Cons.IH [OF s(1)]
  have 1: "seen_ok gn (fold (visit_item gn) (x # es) st)" using ih by simp
  have 2: "set (snd (fold (visit_item gn) (x # es) st))
      = set (snd st) \<union> {e \<in> set (x # es). stamp (fst st) e \<noteq> gn}"
    using ih s(2) s(3) by auto
  have 3: "\<forall>e. stamp (fst (fold (visit_item gn) (x # es) st)) e = gn
      \<longleftrightarrow> stamp (fst st) e = gn \<or> e \<in> set (x # es)"
    using ih s(3) by auto
  have 4: "\<forall>e. e \<notin> set (x # es) \<longrightarrow> fst (fold (visit_item gn) (x # es) st) e = fst st e"
    using ih s(4) by auto
  have 5: "dom (fst (fold (visit_item gn) (x # es) st))
      = dom (fst st) \<union> {e \<in> set (x # es). stamp (fst st) e \<noteq> gn}"
    using ih s(5) s(3) by auto
  show ?case using 1 2 3 4 5 by blast
qed

lemma Query_result:
  "distinct (fst (Query g minX minY maxX maxY))"
  "set (fst (Query g minX minY maxX maxY))
     = {e \<in> set (candidates g minX minY maxX maxY). stamp (items g) e \<noteq> gen g + 1}"
  "dom (items (snd (Query g minX minY maxX maxY)))
     = dom (items g) \<union> {e \<in> set (candidates g minX minY maxX maxY). stamp (items g) e \<noteq> gen g + 1}"
proof -
  have ok: "seen_ok (gen g + 1) (items g, [])" by (simp add: seen_ok_def)
  note f = fold_visit_item [OF ok, of "candidates g minX minY maxX maxY"]
  show "distinct (fst (Query g minX minY maxX maxY))"
    using f by (simp add: Query_fold Let_def seen_ok_def)
  show "set (fst (Query g minX minY maxX maxY))
     = {e \<in> set (candidates g minX minY maxX maxY). stamp (items g) e \<noteq> gen g + 1}"
    using f by (simp add: Query_fold Let_def)
  show "dom (items (snd (Query g minX minY maxX maxY)))
     = dom (items g) \<union> {e \<in> set (candidates g minX minY maxX maxY). stamp (items g) e \<noteq> gen g + 1}"
    using f by (simp add: Query_fold Let_def)
qed

lemma Query_frame:
  "cells (snd (Query g minX minY maxX maxY)) = cells g"
  "itemCells (snd (Query g minX minY maxX maxY)) = itemCells g"
  "cellWidth (snd (Query g minX minY maxX maxY)) = cellWidth g"
  "cellHeight (snd (Query g minX minY maxX maxY)) = cellHeight g"
  "gen (snd (Query g minX minY maxX maxY)) = gen g + 1"
  "qBuf (snd (Query g minX minY maxX maxY)) = fst (Query g minX minY maxX maxY)"
  by (simp_all add: Query_fold Let_def)

lemma index_inv_empty: "index_inv Map.empty Map.empty"
  by (simp add: index_inv_def bucket_def)

lemma index_inv_listed:
  "index_inv cs ic \<Longrightarrow> ic e = Some K \<Longrightarrow> distinct K \<and> (\<forall>k \<in> set K. count_list (bucket cs k) e = 1)"
  unfolding index_inv_def by blast

lemma index_inv_nonempty: "index_inv cs ic \<Longrightarrow> cs k = Some es \<Longrightarrow> es \<noteq> []"
  unfolding index_inv_def by blast

lemma index_inv_known:
  "index_inv cs ic \<Longrightarrow> e \<in> set (bucket cs k) \<Longrightarrow> \<exists>K. ic e = Some K \<and> k \<in> set K"
  unfolding index_inv_def by blast

lemma index_inv_absent: "index_inv cs ic \<Longrightarrow> ic item = None \<Longrightarrow> item \<notin> set (bucket cs k)"
  using index_inv_known [of cs ic item k] by auto

lemma count_list_filter_other:
  "e \<noteq> item \<Longrightarrow> count_list (filter (\<lambda>x. x \<noteq> item) xs) e = count_list xs e"
  by (induction xs) auto

lemma index_inv_add:
  assumes inv: "index_inv cs ic" and new: "ic item = None" and dK: "distinct K"
  shows "index_inv (\<lambda>k. if k \<in> set K then Some (bucket cs k @ [item]) else cs k) (ic(item \<mapsto> K))"
proof -
  let ?cs = "\<lambda>k. if k \<in> set K then Some (bucket cs k @ [item]) else cs k"
  let ?ic = "ic(item \<mapsto> K)"
  have b: "bucket ?cs k = (if k \<in> set K then bucket cs k @ [item] else bucket cs k)" for k
    by (simp add: bucket_def)
  note ab = index_inv_absent [OF inv new]
  have p2: "distinct K' \<and> (\<forall>k \<in> set K'. count_list (bucket ?cs k) e = 1)"
    if h: "?ic e = Some K'" for e K'
  proof (cases "e = item")
    case True
    then have "K' = K" using h by simp
    then show ?thesis using True ab dK by (simp add: b)
  next
    case False
    then have "ic e = Some K'" using h by simp
    then show ?thesis using index_inv_listed [OF inv, of e K'] False by (simp add: b)
  qed
  have p3: "es \<noteq> []" if "?cs k = Some es" for k es
    using that index_inv_nonempty [OF inv, of k es] by (auto split: if_splits)
  have p4: "\<exists>K'. ?ic e = Some K' \<and> k \<in> set K'" if h: "e \<in> set (bucket ?cs k)" for k e
  proof (cases "e = item")
    case True
    then have "k \<in> set K" using h ab [of k] by (auto simp add: b split: if_splits)
    then show ?thesis using True by simp
  next
    case False
    then have "e \<in> set (bucket cs k)" using h by (auto simp add: b split: if_splits)
    then show ?thesis using index_inv_known [OF inv, of e k] False by simp
  qed
  show ?thesis unfolding index_inv_def using p2 p3 p4 by blast
qed

lemma bucket_fold_remove:
  assumes inv: "index_inv cs ic" and K: "ic item = Some K"
  shows "bucket (fold (remove_from_cell item) K cs) k = filter (\<lambda>x. x \<noteq> item) (bucket cs k)"
proof (cases "k \<in> set K")
  case True
  then show ?thesis by (simp add: fold_remove_from_cell bucket_def)
next
  case False
  have "item \<notin> set (bucket cs k)"
    using index_inv_known [OF inv, of item k] K False by auto
  then have "filter (\<lambda>x. x \<noteq> item) (bucket cs k) = bucket cs k"
    by (auto simp add: filter_id_conv)
  then show ?thesis using False by (simp add: fold_remove_from_cell bucket_def)
qed

lemma index_inv_remove:
  assumes inv: "index_inv cs ic" and K: "ic item = Some K"
  shows "index_inv (fold (remove_from_cell item) K cs) (ic(item := None))"
proof -
  let ?cs = "fold (remove_from_cell item) K cs"
  let ?ic = "ic(item := None)"
  note b = bucket_fold_remove [OF inv K]
  have p2: "distinct K' \<and> (\<forall>k \<in> set K'. count_list (bucket ?cs k) e = 1)"
    if h: "?ic e = Some K'" for e K'
  proof -
    have ne: "e \<noteq> item" and "ic e = Some K'"
      using h by (auto split: if_splits)
    then show ?thesis using index_inv_listed [OF inv, of e K'] by (simp add: b count_list_filter_other)
  qed
  have p3: "es \<noteq> []" if "?cs k = Some es" for k es
    using that index_inv_nonempty [OF inv, of k es]
    by (auto simp add: fold_remove_from_cell split: if_splits)
  have p4: "\<exists>K'. ?ic e = Some K' \<and> k \<in> set K'" if h: "e \<in> set (bucket ?cs k)" for k e
  proof -
    have "e \<noteq> item" "e \<in> set (bucket cs k)" using h by (simp_all add: b)
    then show ?thesis using index_inv_known [OF inv, of e k] by simp
  qed
  show ?thesis unfolding index_inv_def using p2 p3 p4 by blast
qed

subsection \<open>The invariant of package hash\<close>

lemma grid_inv_NewGrid: "grid_inv (NewGrid cw ch)"
  by (simp add: grid_inv_def NewGrid_def index_inv_empty)

lemma grid_inv_absent:
  assumes "grid_inv g" "\<not> Contains g item"
  shows "itemCells g item = None" "item \<notin> set (bucket (cells g) k)"
proof -
  have "item \<notin> dom (items g)" using assms(2) by (auto simp add: Contains_def)
  then show n: "itemCells g item = None" using assms(1) by (auto simp add: grid_inv_def)
  have ii: "index_inv (cells g) (itemCells g)" using assms(1) by (simp add: grid_inv_def)
  show "item \<notin> set (bucket (cells g) k)"
    using index_inv_absent [OF ii n] .
qed

lemma grid_inv_present:
  assumes "grid_inv g" "Contains g item"
  shows "\<exists>K. itemCells g item = Some K"
proof -
  have "item \<in> dom (items g)" using assms(2) by (auto simp add: Contains_def)
  then have "item \<in> dom (itemCells g)" using assms(1) by (simp add: grid_inv_def)
  then show ?thesis by auto
qed

lemma grid_inv_insert_grid:
  assumes inv: "grid_inv g"
  shows "grid_inv (snd (insert_grid g item minX minY maxX maxY padding fn))"
proof (cases "Contains g item")
  case True
  then show ?thesis using inv by (simp add: insert_grid_def)
next
  case False
  have "index_inv (\<lambda>k. if k \<in> set (claimed_keys g minX minY maxX maxY padding fn)
                         then Some (bucket (cells g) k @ [item]) else cells g k)
          ((itemCells g)(item \<mapsto> claimed_keys g minX minY maxX maxY padding fn))"
    using inv grid_inv_absent(1) [OF inv False]
    by (intro index_inv_add) (simp_all add: grid_inv_def distinct_claimed_keys)
  then show ?thesis
    using inv by (simp add: insert_grid_absent [OF False] grid_inv_def)
qed

lemma Remove_present:
  assumes "itemCells g item = Some K" "Contains g item"
  shows "Remove g item =
     g\<lparr>items := (items g)(item := None),
       itemCells := (itemCells g)(item := None),
       cells := fold (remove_from_cell item) K (cells g)\<rparr>"
  using assms by (simp add: Remove_def Let_def)

lemma bucket_Remove:
  assumes inv: "grid_inv g"
  shows "bucket (cells (Remove g item)) k = filter (\<lambda>x. x \<noteq> item) (bucket (cells g) k)"
proof (cases "Contains g item")
  case False
  have "item \<notin> set (bucket (cells g) k)" using grid_inv_absent(2) [OF inv False] .
  then have "filter (\<lambda>x. x \<noteq> item) (bucket (cells g) k) = bucket (cells g) k"
    by (auto simp add: filter_id_conv)
  then show ?thesis using False by (simp add: Remove_def)
next
  case True
  obtain K where K: "itemCells g item = Some K" using grid_inv_present [OF inv True] by auto
  have ii: "index_inv (cells g) (itemCells g)" using inv by (simp add: grid_inv_def)
  show ?thesis
    using bucket_fold_remove [OF ii K, of k]
    by (simp add: Remove_present [OF K True])
qed

lemma grid_inv_Remove:
  assumes inv: "grid_inv g"
  shows "grid_inv (Remove g item)"
proof (cases "Contains g item")
  case False
  then show ?thesis using inv by (simp add: Remove_def)
next
  case True
  obtain K where K: "itemCells g item = Some K" using grid_inv_present [OF inv True] by auto
  have ii: "index_inv (cells g) (itemCells g)" using inv by (simp add: grid_inv_def)
  show ?thesis
    using index_inv_remove [OF ii K] inv
    by (simp add: Remove_present [OF K True] grid_inv_def)
qed

lemma grid_inv_Clear: "grid_inv (Clear g)"
  by (simp add: grid_inv_def Clear_def index_inv_empty)

lemma grid_inv_Resize: "grid_inv g \<Longrightarrow> grid_inv (Resize g cw ch)"
  using grid_inv_Clear [of g]
  by (simp add: Resize_def grid_inv_def)

lemma candidates_known:
  assumes "grid_inv g" "e \<in> set (candidates g minX minY maxX maxY)"
  shows "e \<in> dom (items g)"
proof -
  obtain k where "e \<in> set (bucket (cells g) k)"
    using assms(2) by (auto simp add: candidates_def)
  then have "\<exists>K. itemCells g e = Some K \<and> k \<in> set K"
    using assms(1) index_inv_known [of "cells g" "itemCells g" e k] by (simp add: grid_inv_def)
  then have "e \<in> dom (itemCells g)" by auto
  then show ?thesis using assms(1) by (simp add: grid_inv_def)
qed

lemma grid_inv_Query:
  assumes "grid_inv g"
  shows "grid_inv (snd (Query g minX minY maxX maxY))"
proof -
  have "{e \<in> set (candidates g minX minY maxX maxY). stamp (items g) e \<noteq> gen g + 1}
      \<subseteq> dom (items g)"
    using candidates_known [OF assms] by blast
  then have "dom (items (snd (Query g minX minY maxX maxY))) = dom (items g)"
    unfolding Query_result(3) by blast
  then show ?thesis
    using assms by (simp add: grid_inv_def Query_frame)
qed

subsection \<open>Inclusive loops\<close>

lemma sle_succ: "sint (hi :: 32 word) < 2 ^ 31 - 1 \<Longrightarrow> c \<le>s hi \<longleftrightarrow> c <s hi + 1"
proof -
  assume a: "sint hi < 2 ^ 31 - 1"
  have "- (2 ^ 31) \<le> sint hi" using sint_ge [of hi] by simp
  then have r: "- (2 ^ 31) \<le> sint hi + 1" "sint hi + 1 < 2 ^ 31" using a by simp_all
  have "sint (hi + 1) = signed_take_bit 31 (sint hi + sint (1 :: 32 word))"
    using sint_word_add [of hi 1] by simp
  also have "\<dots> = signed_take_bit 31 (sint hi + 1)" by simp
  also have "\<dots> = sint hi + 1" using r by (simp add: signed_take_bit_int_eq_self)
  finally show ?thesis by (simp add: word_sle_eq word_sless_alt)
qed

lemma for32_incl_total:
  assumes "sint hi < 2 ^ 31 - 1"
  shows "for32_incl c hi (\<lambda>c s. Some (body c s)) s = Some (for32 c (hi + 1) body s)"
proof (induction c "hi + 1" body s rule: for32.induct)
  case (1 c body s)
  show ?case
  proof (cases "c <s hi + 1")
    case True
    then have "c \<le>s hi" using sle_succ [OF assms] by simp
    then show ?thesis
      using 1 True by (subst for32_incl.simps, subst for32.simps) simp
  next
    case False
    then have "\<not> c \<le>s hi" using sle_succ [OF assms] by simp
    then show ?thesis
      using False by (subst for32_incl.simps, subst for32.simps) simp
  qed
qed

lemma nested_for32_incl_total:
  assumes "sint hiX < 2 ^ 31 - 1" "sint hiY < 2 ^ 31 - 1"
  shows "for32_incl loX hiX (\<lambda>x. for32_incl loY hiY (\<lambda>y s. Some (body x y s))) s
       = Some (for32 loX (hiX + 1) (\<lambda>x. for32 loY (hiY + 1) (\<lambda>y. body x y)) s)"
proof -
  have "(\<lambda>x. for32_incl loY hiY (\<lambda>y s. Some (body x y s)))
      = (\<lambda>x s. Some (for32 loY (hiY + 1) (\<lambda>y. body x y) s))"
    by (intro ext) (rule for32_incl_total [OF assms(2)])
  then show ?thesis by (simp add: for32_incl_total [OF assms(1)])
qed

subsection \<open>First-occurrence removal\<close>

lemma index_of_None: "index_of e es = None \<longleftrightarrow> e \<notin> set es"
  by (induction es) auto

lemma index_of_Some:
  "index_of e es = Some j \<Longrightarrow> take j es @ drop (Suc j) es = remove1 e es"
  by (induction es arbitrary: j) (auto split: if_splits)

lemma remove_first_is_remove_from_cell:
  assumes "distinct (bucket cs k)" "cs k \<noteq> Some []"
  shows "remove_first_from_cell e k cs = remove_from_cell e k cs"
proof (cases "index_of e (bucket cs k)")
  case None
  then have n: "e \<notin> set (bucket cs k)" by (simp add: index_of_None)
  then have f: "filter (\<lambda>x. x \<noteq> e) (bucket cs k) = bucket cs k"
    by (auto simp add: filter_id_conv)
  have "cs(k := None) = cs" if "bucket cs k = []"
    using that assms(2) by (auto simp add: bucket_def fun_eq_iff split: option.splits)
  moreover have "cs(k \<mapsto> bucket cs k) = cs" if "bucket cs k \<noteq> []"
    using that by (auto simp add: bucket_def fun_eq_iff split: option.splits)
  ultimately show ?thesis
    using None by (simp add: remove_first_from_cell_def remove_from_cell_filter f)
next
  case (Some j)
  have "take j (bucket cs k) @ drop (Suc j) (bucket cs k) = remove1 e (bucket cs k)"
    using index_of_Some [OF Some] .
  also have "\<dots> = filter (\<lambda>x. x \<noteq> e) (bucket cs k)"
    using assms(1) by (simp add: distinct_remove1_removeAll removeAll_filter_not_eq) metis
  finally show ?thesis
    using Some by (simp add: remove_first_from_cell_def remove_from_cell_filter)
qed

lemma tidy_remove_from_cell: "tidy cs \<Longrightarrow> tidy (remove_from_cell e k cs)"
  by (auto simp add: tidy_def bucket_remove_from_cell remove_from_cell_apply)

lemma fold_remove_first:
  "tidy cs \<Longrightarrow> fold (remove_first_from_cell e) ks cs = fold (remove_from_cell e) ks cs"
proof (induction ks arbitrary: cs)
  case Nil
  show ?case by simp
next
  case (Cons k ks)
  have "remove_first_from_cell e k cs = remove_from_cell e k cs"
    using Cons.prems by (intro remove_first_is_remove_from_cell) (simp_all add: tidy_def)
  then show ?case using Cons.IH [OF tidy_remove_from_cell [OF Cons.prems]] by simp
qed

lemma count_one_distinct: "(\<forall>x \<in> set xs. count_list xs x = 1) \<Longrightarrow> distinct xs"
proof (induction xs)
  case Nil
  show ?case by simp
next
  case (Cons a xs)
  have a: "count_list xs a = 0" using Cons.prems by simp
  then have na: "a \<notin> set xs" by (simp add: count_list_0_iff)
  have "\<forall>x \<in> set xs. count_list xs x = 1"
  proof
    fix x assume x: "x \<in> set xs"
    then have "x \<noteq> a" using na by auto
    then show "count_list xs x = 1" using Cons.prems x by auto
  qed
  then show ?case using Cons.IH na by simp
qed

lemma index_inv_tidy: "index_inv cs ic \<Longrightarrow> tidy cs"
proof -
  assume inv: "index_inv cs ic"
  have "distinct (bucket cs k)" for k
  proof (rule count_one_distinct, rule ballI)
    fix x assume "x \<in> set (bucket cs k)"
    then obtain K where "ic x = Some K" "k \<in> set K" using index_inv_known [OF inv] by blast
    then show "count_list (bucket cs k) x = 1" using index_inv_listed [OF inv] by blast
  qed
  moreover have "cs k \<noteq> Some []" for k using index_inv_nonempty [OF inv, of k "[]"] by auto
  ultimately show ?thesis by (simp add: tidy_def)
qed

lemma fold_filter_append:
  "fold (\<lambda>p ks. if P p then ks @ [h p] else ks) ps acc = acc @ map h (filter P ps)"
  by (induction ps arbitrary: acc) simp_all

lemma getKeysInternal_keys:
  "getKeysInternal m g entry check
   = (part0_claimed_keys m g entry check, g\<lparr>part0_getKeys := part0_claimed_keys m g entry check\<rparr>)"
proof -
  obtain a b c d where r: "computeCellRange (fst (entry_Min m entry)) (snd (entry_Min m entry))
             (fst (entry_Max m entry)) (snd (entry_Max m entry)) (part0_cellSize g) = (a, b, c, d)"
    using prod_cases4 by blast
  have loop: "for32 a c
      (\<lambda>x. for32 b d
         (\<lambda>y keys. if cell_checked (part0_cellSize g) check x y
                    then keys @ [EncodeGridKey x y] else keys)) []
    = part0_claimed_keys m g entry check"
    unfolding part0_claimed_keys_def r nested_for32
    by (simp add: case_prod_unfold fold_filter_append)
  show ?thesis
    using r by (simp add: getKeysInternal_def case_prod_unfold loop Let_def)
qed

lemma distinct_part0_claimed_keys: "distinct (part0_claimed_keys m g entry check)"
proof -
  have "inj_on (\<lambda>p. EncodeGridKey (snd p) (fst p)) A" for A
    by (rule inj_onI) (simp add: EncodeGridKey_inj prod_eq_iff)
  then show ?thesis
    by (simp add: part0_claimed_keys_def distinct_map distinct_loop_cells split: prod.splits)
qed

lemma fold_append_entry:
  "fold (append_entry entry) ks cs = fst (fold (insert_cell entry) ks (cs, acc))"
  by (induction ks arbitrary: cs acc) (simp_all add: append_entry_def insert_cell_def)

lemma fold_append_entry_distinct:
  "distinct ks \<Longrightarrow>
   fold (append_entry entry) ks cs
   = (\<lambda>k. if k \<in> set ks then Some (bucket cs k @ [entry]) else cs k)"
  using fold_append_entry [of entry ks cs "[]"] fold_insert_cell [of ks entry cs "[]"] by simp

lemma InsertStrictCheck_absent:
  assumes "part0_cellKeys g entry = None"
  shows "InsertStrictCheck m g entry check =
     (True, g\<lparr>part0_getKeys := part0_claimed_keys m g entry check,
              part0_cellKeys := (part0_cellKeys g)(entry \<mapsto> part0_claimed_keys m g entry check),
              part0_cells := (\<lambda>k. if k \<in> set (part0_claimed_keys m g entry check)
                                  then Some (bucket (part0_cells g) k @ [entry])
                                  else part0_cells g k)\<rparr>)"
proof -
  let ?K = "part0_claimed_keys m g entry check"
  have c: "fold (append_entry entry) ?K (part0_cells g)
      = (\<lambda>k. if k \<in> set ?K then Some (bucket (part0_cells g) k @ [entry]) else part0_cells g k)"
    by (rule fold_append_entry_distinct [OF distinct_part0_claimed_keys])
  have "InsertStrictCheck m g entry check =
     (True, g\<lparr>part0_getKeys := ?K,
              part0_cellKeys := (part0_cellKeys g)(entry \<mapsto> ?K),
              part0_cells := fold (append_entry entry) ?K (part0_cells g)\<rparr>)"
    using assms
    by (simp add: InsertStrictCheck_def part0_GetKeys_def getKeysInternal_keys)
  then show ?thesis unfolding c .
qed

lemma InsertStrictCheck_present:
  "part0_cellKeys g entry \<noteq> None \<Longrightarrow> InsertStrictCheck m g entry check = (False, g)"
  by (simp add: InsertStrictCheck_def)

lemma part0_inv_New: "part0_New cellSize = Inr g \<Longrightarrow> part0_inv g"
  by (auto simp add: part0_New_def part0_inv_def index_inv_empty split: if_splits)

lemma part0_inv_InsertStrictCheck:
  assumes "part0_inv g"
  shows "part0_inv (snd (InsertStrictCheck m g entry check))"
proof (cases "part0_cellKeys g entry")
  case None
  have "index_inv (\<lambda>k. if k \<in> set (part0_claimed_keys m g entry check)
                         then Some (bucket (part0_cells g) k @ [entry]) else part0_cells g k)
          ((part0_cellKeys g)(entry \<mapsto> part0_claimed_keys m g entry check))"
    using assms None
    by (intro index_inv_add) (simp_all add: part0_inv_def distinct_part0_claimed_keys)
  then show ?thesis by (simp add: InsertStrictCheck_absent [OF None] part0_inv_def)
next
  case (Some K)
  then show ?thesis using assms by (simp add: InsertStrictCheck_present)
qed

lemma part0_Remove_present:
  assumes inv: "part0_inv g" and K: "part0_cellKeys g entry = Some K"
  shows "part0_Remove g entry =
     g\<lparr>part0_cells := fold (remove_from_cell entry) K (part0_cells g),
       part0_cellKeys := (part0_cellKeys g)(entry := None)\<rparr>"
proof -
  have "tidy (part0_cells g)" using inv index_inv_tidy by (auto simp add: part0_inv_def)
  then show ?thesis using K by (simp add: part0_Remove_def fold_remove_first)
qed

lemma bucket_part0_Remove:
  assumes inv: "part0_inv g"
  shows "bucket (part0_cells (part0_Remove g entry)) k
       = filter (\<lambda>x. x \<noteq> entry) (bucket (part0_cells g) k)"
proof (cases "part0_cellKeys g entry")
  case None
  have ii: "index_inv (part0_cells g) (part0_cellKeys g)" using inv by (simp add: part0_inv_def)
  have "entry \<notin> set (bucket (part0_cells g) k)" using index_inv_absent [OF ii None] .
  then have "filter (\<lambda>x. x \<noteq> entry) (bucket (part0_cells g) k) = bucket (part0_cells g) k"
    by (auto simp add: filter_id_conv)
  then show ?thesis using None by (simp add: part0_Remove_def)
next
  case (Some K)
  have ii: "index_inv (part0_cells g) (part0_cellKeys g)" using inv by (simp add: part0_inv_def)
  show ?thesis
    using bucket_fold_remove [OF ii Some, of k]
    by (simp add: part0_Remove_present [OF inv Some])
qed

lemma part0_inv_Remove:
  assumes inv: "part0_inv g"
  shows "part0_inv (part0_Remove g entry)"
proof (cases "part0_cellKeys g entry")
  case None
  then show ?thesis using inv by (simp add: part0_Remove_def)
next
  case (Some K)
  have ii: "index_inv (part0_cells g) (part0_cellKeys g)" using inv by (simp add: part0_inv_def)
  show ?thesis
    using index_inv_remove [OF ii Some]
    by (simp add: part0_Remove_present [OF inv Some] part0_inv_def)
qed

lemma part0_inv_QueryUnsafe: "part0_inv g \<Longrightarrow> part0_inv (snd (QueryUnsafe g minX minY maxX maxY))"
  by (simp add: QueryUnsafe_def part0_inv_def case_prod_unfold Let_def)

lemma part0_inv_Clear: "part0_inv (part0_Clear g)"
  by (simp add: part0_Clear_def part0_inv_def index_inv_empty)

subsection \<open>Insertion in package hashgrid\<close>

lemma bucket_insert_unique:
  "bucket (insert_unique e k cs) k' =
     (if k' = k \<and> e \<notin> set (bucket cs k) then bucket cs k @ [e] else bucket cs k')"
  by (simp add: insert_unique_def bucket_def Let_def)

lemma insert_unique_present: "e \<in> set (bucket cs k) \<Longrightarrow> insert_unique e k cs = cs"
  by (simp add: insert_unique_def)

lemma fold_insert_unique_keeps:
  "e \<in> set (bucket cs k) \<Longrightarrow> e \<in> set (bucket (fold (insert_unique e) ks cs) k)"
  by (induction ks arbitrary: cs) (simp_all add: bucket_insert_unique)

lemma fold_insert_unique_holds:
  "k \<in> set ks \<Longrightarrow> e \<in> set (bucket (fold (insert_unique e) ks cs) k)"
proof (induction ks arbitrary: cs)
  case Nil
  then show ?case by simp
next
  case (Cons a ks)
  show ?case
  proof (cases "k = a")
    case True
    have "e \<in> set (bucket (insert_unique e a cs) a)" by (simp add: bucket_insert_unique)
    then show ?thesis using True fold_insert_unique_keeps by fastforce
  next
    case False
    then show ?thesis using Cons by simp
  qed
qed

lemma fold_insert_unique_fixed:
  "(\<forall>k \<in> set ks. e \<in> set (bucket cs k)) \<Longrightarrow> fold (insert_unique e) ks cs = cs"
  by (induction ks arbitrary: cs) (simp_all add: insert_unique_present)

lemma fold_insert_unique_idem:
  "fold (insert_unique e) ks (fold (insert_unique e) ks cs) = fold (insert_unique e) ks cs"
  by (rule fold_insert_unique_fixed) (simp add: fold_insert_unique_holds)

lemma hashgrid_GetKeys_cells:
  "hashgrid_GetKeys m (g\<lparr>hashgrid_cells := cs\<rparr>) e = hashgrid_GetKeys m g e"
  by (simp add: hashgrid_GetKeys_def hashgrid_GetKeys_range_def)

lemma hashgrid_Insert_idem:
  assumes "hashgrid_Insert m g e = Some g'"
  shows "hashgrid_Insert m g' e = Some g'"
proof -
  obtain keys where k: "hashgrid_GetKeys m g e = Some keys"
    and g': "g' = g\<lparr>hashgrid_cells := fold (insert_unique e) keys (hashgrid_cells g)\<rparr>"
    using assms by (auto simp add: hashgrid_Insert_def split: option.splits)
  have "hashgrid_GetKeys m g' e = Some keys" using k by (simp add: g' hashgrid_GetKeys_cells)
  then show ?thesis
    by (simp add: hashgrid_Insert_def g' fold_insert_unique_idem)
qed

lemma hashgrid_GetKeys_returns:
  assumes "hashgrid_GetKeys_range m g e = (startX, startY, endX, endY)"
    and "sint endX < 2 ^ 31 - 1" "sint endY < 2 ^ 31 - 1"
  shows "hashgrid_GetKeys m g e
    = Some (for32 startX (endX + 1) (\<lambda>x. for32 startY (endY + 1) (\<lambda>y keys. keys @ [EncodeGridKey x y])) [])"
  using nested_for32_incl_total [OF assms(2,3), of startX startY "\<lambda>x y keys. keys @ [EncodeGridKey x y]" "[]"]
  by (simp add: hashgrid_GetKeys_def assms(1))

lemma hashgrid_Insert_returns:
  assumes "hashgrid_GetKeys_range m g e = (startX, startY, endX, endY)"
    and "sint endX < 2 ^ 31 - 1" "sint endY < 2 ^ 31 - 1"
  shows "hashgrid_Insert m g e \<noteq> None"
  by (simp add: hashgrid_Insert_def hashgrid_GetKeys_returns [OF assms])

subsection \<open>Generation stamps\<close>

lemma word_le_succ: "(x :: 64 word) \<noteq> - 1 \<Longrightarrow> x < x + 1"
  using inc_less_eq_self_iff_eq [of x] by (simp add: not_le)

lemma stamps_ok_NewGrid: "stamps_ok (NewGrid cw ch)"
  by (simp add: stamps_ok_def NewGrid_def)

lemma stamps_ok_insert_grid:
  "stamps_ok g \<Longrightarrow> stamps_ok (snd (insert_grid g item minX minY maxX maxY padding fn))"
proof (cases "Contains g item")
  case True
  assume "stamps_ok g"
  then show ?thesis using True by (simp add: insert_grid_def)
next
  case False
  assume "stamps_ok g"
  then show ?thesis by (auto simp add: insert_grid_absent [OF False] stamps_ok_def)
qed

lemma stamps_ok_Remove: "stamps_ok g \<Longrightarrow> stamps_ok (Remove g item)"
  by (auto simp add: Remove_def stamps_ok_def Let_def split: if_splits)

lemma stamps_ok_Clear: "stamps_ok (Clear g)"
  by (simp add: stamps_ok_def Clear_def)

lemma stamps_ok_Resize: "stamps_ok g \<Longrightarrow> stamps_ok (Resize g cw ch)"
  using stamps_ok_Clear [of g] by (simp add: Resize_def stamps_ok_def)

lemma Query_stamps:
  assumes "items (snd (Query g minX minY maxX maxY)) e = Some s"
  shows "s = gen g + 1 \<or> items g e = Some s"
proof -
  let ?es = "candidates g minX minY maxX maxY"
  let ?st = "fold (visit_item (gen g + 1)) ?es (items g, [])"
  have ok: "seen_ok (gen g + 1) (items g, [])" by (simp add: seen_ok_def)
  note f = fold_visit_item [OF ok, of ?es]
  have its: "fst ?st e = Some s" using assms by (simp add: Query_fold Let_def)
  show ?thesis
  proof (cases "e \<in> set ?es")
    case True
    then have "stamp (fst ?st) e = gen g + 1" using f by simp
    then show ?thesis using its by (simp add: stamp_def)
  next
    case False
    then have "fst ?st e = items g e" using f by simp
    then show ?thesis using its by simp
  qed
qed

lemma stamps_ok_Query:
  assumes "stamps_ok g" "gen g \<noteq> - 1"
  shows "stamps_ok (snd (Query g minX minY maxX maxY))"
proof -
  have lt: "gen g < gen g + 1" using assms(2) by (rule word_le_succ)
  have "s \<le> gen g + 1" if h: "items (snd (Query g minX minY maxX maxY)) e = Some s" for e s
  proof (cases "s = gen g + 1")
    case True
    then show ?thesis by simp
  next
    case False
    then have "items g e = Some s" using Query_stamps [OF h] by simp
    then have "s \<le> gen g" using assms(1) by (simp add: stamps_ok_def)
    moreover have "gen g \<le> gen g + 1" using lt by simp
    ultimately show ?thesis by (rule order_trans)
  qed
  then show ?thesis by (simp add: stamps_ok_def Query_frame)
qed

lemma Query_set:
  assumes "grid_inv g" "stamps_ok g" "gen g \<noteq> - 1"
  shows "set (fst (Query g minX minY maxX maxY)) = set (candidates g minX minY maxX maxY)"
proof -
  have lt: "gen g < gen g + 1" using assms(3) by (rule word_le_succ)
  have "stamp (items g) e \<noteq> gen g + 1" if c: "e \<in> set (candidates g minX minY maxX maxY)" for e
  proof -
    obtain s where s: "items g e = Some s" using candidates_known [OF assms(1) c] by auto
    then have "s \<le> gen g" using assms(2) by (simp add: stamps_ok_def)
    then show ?thesis using s lt by (auto simp add: stamp_def)
  qed
  then show ?thesis by (auto simp add: Query_result(2))
qed

subsection \<open>float32 arithmetic\<close>

lemma pow2_less: "power_int (2::real) a < power_int 2 b \<Longrightarrow> a < b"
proof (rule ccontr)
  assume l: "power_int (2::real) a < power_int 2 b" and n: "\<not> a < b"
  have "power_int (2::real) b \<le> power_int 2 a" using n by (intro power_int_increasing) simp_all
  then show False using l by simp
qed

lemma binade_from_spec:
  "e0 \<le> 127 \<Longrightarrow>
   e0 \<le> binade_from e0 x \<and> binade_from e0 x \<le> 127
   \<and> (binade_from e0 x < 127 \<longrightarrow> x < power_int 2 (binade_from e0 x + 1))
   \<and> (e0 < binade_from e0 x \<longrightarrow> power_int 2 (binade_from e0 x) \<le> x)"
proof (induction e0 x rule: binade_from.induct)
  case (1 e x)
  show ?case
  proof (cases "e < 127 \<and> power_int 2 (e + 1) \<le> x")
    case True
    then have s: "binade_from e x = binade_from (e + 1) x"
      by (subst binade_from.simps) simp
    have ih: "e + 1 \<le> binade_from (e + 1) x \<and> binade_from (e + 1) x \<le> 127
      \<and> (binade_from (e + 1) x < 127 \<longrightarrow> x < power_int 2 (binade_from (e + 1) x + 1))
      \<and> (e + 1 < binade_from (e + 1) x \<longrightarrow> power_int 2 (binade_from (e + 1) x) \<le> x)"
      using 1 True by simp
    show ?thesis
    proof (cases "e + 1 < binade_from (e + 1) x")
      case True
      then show ?thesis using ih s by simp
    next
      case False
      then have "binade_from (e + 1) x = e + 1" using ih by simp
      then show ?thesis using ih s True by simp
    qed
  next
    case False
    then have s: "binade_from e x = e"
      by (subst binade_from.simps) (use False in auto)
    show ?thesis using False 1(2) s by auto
  qed
qed

text \<open>
  The spacing is a power of two between \<open>2^-149\<close> and \<open>2^104\<close>; above the subnormal
  range the magnitude has at least 24 bits in units of the spacing.
\<close>

lemma ulp32_cases:
  obtains k where "ulp32 x = power_int 2 k" "- 149 \<le> k" "k \<le> 104"
    "k = - 149 \<or> power_int 2 (k + 23) \<le> \<bar>x\<bar>"
    "k = 104 \<or> \<bar>x\<bar> < power_int 2 (k + 24)"
proof -
  let ?b = "binade_from (- 126) \<bar>x\<bar>"
  have s: "- 126 \<le> ?b \<and> ?b \<le> 127
      \<and> (?b < 127 \<longrightarrow> \<bar>x\<bar> < power_int 2 (?b + 1))
      \<and> (- 126 < ?b \<longrightarrow> power_int 2 ?b \<le> \<bar>x\<bar>)"
    using binade_from_spec [of "- 126" "\<bar>x\<bar>"] by simp
  show ?thesis
  proof (rule that [of "?b - 23"])
    show "ulp32 x = power_int 2 (?b - 23)" by (simp add: ulp32_def)
    show "- 149 \<le> ?b - 23" using s by simp
    show "?b - 23 \<le> 104" using s by simp
    show "?b - 23 = - 149 \<or> power_int 2 (?b - 23 + 23) \<le> \<bar>x\<bar>" using s by auto
    show "?b - 23 = 104 \<or> \<bar>x\<bar> < power_int 2 (?b - 23 + 24)"
    proof (cases "?b < 127")
      case True
      then have "\<bar>x\<bar> < power_int 2 (?b + 1)" using s by simp
      moreover have "?b - 23 + 24 = ?b + 1" by simp
      ultimately show ?thesis by (simp only:) simp
    next
      case False
      then show ?thesis using s by simp
    qed
  qed
qed

lemma ulp32_eq:
  assumes "- 126 \<le> b" "b \<le> 127" "power_int 2 b \<le> \<bar>x\<bar>" "\<bar>x\<bar> < power_int 2 (b + 1)"
  shows "ulp32 x = power_int 2 (b - 23)"
proof -
  let ?b = "binade_from (- 126) \<bar>x\<bar>"
  have s: "- 126 \<le> ?b \<and> ?b \<le> 127
      \<and> (?b < 127 \<longrightarrow> \<bar>x\<bar> < power_int 2 (?b + 1))
      \<and> (- 126 < ?b \<longrightarrow> power_int 2 ?b \<le> \<bar>x\<bar>)"
    using binade_from_spec [of "- 126" "\<bar>x\<bar>"] by simp
  have "\<not> ?b < b"
  proof
    assume l: "?b < b"
    then have "\<bar>x\<bar> < power_int 2 (?b + 1)" using s assms(2) by simp
    then have "power_int (2::real) b < power_int 2 (?b + 1)" using assms(3) by simp
    then have "b < ?b + 1" by (rule pow2_less)
    then show False using l by simp
  qed
  moreover have "\<not> b < ?b"
  proof
    assume l: "b < ?b"
    then have "power_int 2 ?b \<le> \<bar>x\<bar>" using s assms(1) by simp
    then have "power_int (2::real) ?b < power_int 2 (b + 1)" using assms(4) by simp
    then have "?b < b + 1" by (rule pow2_less)
    then show False using l by simp
  qed
  ultimately have "?b = b" by simp
  then show ?thesis by (simp add: ulp32_def)
qed

lemma rne_of_int: "rne (of_int n) = n"
  by (simp add: rne_def)

text \<open>A number with at most 24 bits and an exponent of the format is a \<open>float32\<close>.\<close>

lemma round32_exact:
  assumes "\<bar>m\<bar> < 2 ^ 24" "- 149 \<le> e"
  shows "round32 (of_int m * power_int 2 e) = of_int m * power_int 2 e"
proof -
  let ?x = "of_int m * power_int 2 e :: real"
  obtain k where k: "ulp32 ?x = power_int 2 k" "- 149 \<le> k"
      "k = - 149 \<or> power_int 2 (k + 23) \<le> \<bar>?x\<bar>"
    by (rule ulp32_cases [of ?x]) blast
  have ke: "k \<le> e"
  proof (cases "k = - 149")
    case True
    then show ?thesis using assms(2) by simp
  next
    case False
    then have "power_int 2 (k + 23) \<le> \<bar>?x\<bar>" using k(3) by simp
    also have "\<bar>?x\<bar> = of_int \<bar>m\<bar> * power_int 2 e" by (simp add: abs_mult)
    also have "\<dots> < 2 ^ 24 * power_int 2 e"
    proof -
      have "(of_int \<bar>m\<bar> :: real) < of_int (2 ^ 24)" using assms(1) by (simp only: of_int_less_iff)
      then have "(of_int \<bar>m\<bar> :: real) < 2 ^ 24" by simp
      then show ?thesis by (intro mult_strict_right_mono) simp_all
    qed
    also have "\<dots> = power_int (2::real) (24 + e)" by (simp add: power_int_add)
    finally have "power_int (2::real) (k + 23) < power_int 2 (24 + e)" .
    then have "k + 23 < 24 + e" by (rule pow2_less)
    then show ?thesis by simp
  qed
  have p: "power_int (2::real) e = 2 ^ nat (e - k) * power_int 2 k"
  proof -
    have "power_int (2::real) e = power_int 2 (e - k) * power_int 2 k"
      by (simp add: power_int_add [symmetric])
    moreover have "power_int (2::real) (e - k) = 2 ^ nat (e - k)"
      using ke by (simp add: power_int_def)
    ultimately show ?thesis by simp
  qed
  have q: "?x / power_int 2 k = of_int (m * 2 ^ nat (e - k))"
    by (simp add: p)
  show ?thesis
    unfolding round32_def k(1) q rne_of_int by (simp add: p)
qed

lemma round32_of_int: "\<bar>n\<bar> < 2 ^ 24 \<Longrightarrow> round32 (of_int n) = of_int n"
  using round32_exact [of n 0] by simp

lemma round32_int_pow2:
  assumes "\<bar>a\<bar> < 2 ^ 24" "k \<le> 149"
  shows "round32 (of_int a / 2 ^ k) = of_int a / 2 ^ k"
proof -
  have "(of_int a / 2 ^ k :: real) = of_int a * power_int 2 (- int k)"
    by (simp add: power_int_minus field_simps)
  moreover have "round32 (of_int a * power_int 2 (- int k)) = of_int a * power_int 2 (- int k)"
    using assms by (intro round32_exact) simp_all
  ultimately show ?thesis by simp
qed

lemma to_float32_Finite:
  "\<bar>round32 x\<bar> \<le> MaxFloat32 \<Longrightarrow> to_float32 x = Finite (round32 x)"
  by (auto simp add: to_float32_def Let_def)

lemma fdiv_Finite:
  "y \<noteq> 0 \<Longrightarrow> \<bar>round32 (x / y)\<bar> \<le> MaxFloat32 \<Longrightarrow> fdiv x y = Finite (round32 (x / y))"
  by (simp add: fdiv_def to_float32_Finite)

text \<open>
  When the floor or the ceiling of the rounded quotient is an \<open>int32\<close>, the quotient is
  finite and the conversion gives that integer.
\<close>

lemma floor32_fdiv:
  assumes "y \<noteq> 0" "fits32 \<lfloor>round32 (x / y)\<rfloor>"
  shows "floor32 (fdiv x y) = word_of_int \<lfloor>round32 (x / y)\<rfloor>"
proof -
  let ?r = "round32 (x / y)"
  have b: "- (2 ^ 31) \<le> \<lfloor>?r\<rfloor>" "\<lfloor>?r\<rfloor> < 2 ^ 31" using assms(2) by (simp_all add: fits32_def)
  have "- (2 ^ 31) \<le> ?r" using b(1) by (simp add: le_floor_iff)
  moreover have "?r < 2 ^ 31" using b(2) by (simp add: floor_less_iff)
  ultimately have "\<bar>?r\<bar> \<le> MaxFloat32" by (simp add: MaxFloat32_def abs_le_iff)
  then have "fdiv x y = Finite ?r" by (rule fdiv_Finite [OF assms(1)])
  then show ?thesis using b by (simp add: floor32_def int32_of_def)
qed

lemma ceil32_fdiv:
  assumes "y \<noteq> 0" "fits32 \<lceil>round32 (x / y)\<rceil>"
  shows "ceil32 (fdiv x y) = word_of_int \<lceil>round32 (x / y)\<rceil>"
proof -
  let ?r = "round32 (x / y)"
  have b: "- (2 ^ 31) \<le> \<lceil>?r\<rceil>" "\<lceil>?r\<rceil> < 2 ^ 31" using assms(2) by (simp_all add: fits32_def)
  have "- (2 ^ 31) - 1 < ?r" using b(1) by (simp add: le_ceiling_iff)
  moreover have "?r \<le> 2 ^ 31" using b(2) by (simp add: ceiling_less_iff)
  ultimately have "\<bar>?r\<bar> \<le> MaxFloat32" by (simp add: MaxFloat32_def abs_le_iff)
  then have "fdiv x y = Finite ?r" by (rule fdiv_Finite [OF assms(1)])
  then show ?thesis using b by (simp add: ceil32_def int32_of_def)
qed

lemma fdiv_int_pow2:
  assumes "\<bar>a\<bar> < 2 ^ 24" "k \<le> 149"
  shows "fdiv (of_int a) (2 ^ k) = Finite (of_int a / 2 ^ k)"
proof -
  have r: "round32 (of_int a / 2 ^ k) = of_int a / 2 ^ k"
    by (rule round32_int_pow2 [OF assms])
  have "\<bar>of_int a / 2 ^ k :: real\<bar> \<le> \<bar>of_int a\<bar>"
    by (simp add: field_simps mult_le_cancel_left1)
  also have "\<dots> \<le> 2 ^ 24"
  proof -
    have "(of_int \<bar>a\<bar> :: real) < of_int (2 ^ 24)" using assms(1) by (simp only: of_int_less_iff)
    then show ?thesis by simp
  qed
  also have "\<dots> \<le> MaxFloat32" by (simp add: MaxFloat32_def)
  finally have "\<bar>round32 (of_int a / 2 ^ k)\<bar> \<le> MaxFloat32" by (simp only: r)
  then show ?thesis by (simp add: fdiv_Finite r)
qed

text \<open>The quotients of the examples are exact.\<close>

lemma fdiv_values:
  "fdiv 0 64 = Finite 0" "fdiv 32 64 = Finite (1 / 2)" "fdiv 50 64 = Finite (25 / 32)"
  "fdiv 64 64 = Finite 1" "fdiv 128 64 = Finite 2" "fdiv 100 64 = Finite (25 / 16)"
  "fdiv 1000 64 = Finite (125 / 8)" "fdiv 1100 64 = Finite (275 / 16)"
  "fdiv (- 32) 64 = Finite (- (1 / 2))" "fdiv (- 16) 64 = Finite (- (1 / 4))"
  using fdiv_int_pow2 [of 0 6] fdiv_int_pow2 [of 32 6] fdiv_int_pow2 [of 50 6]
    fdiv_int_pow2 [of 64 6] fdiv_int_pow2 [of 128 6] fdiv_int_pow2 [of 100 6]
    fdiv_int_pow2 [of 1000 6] fdiv_int_pow2 [of 1100 6] fdiv_int_pow2 [of "- 32" 6]
    fdiv_int_pow2 [of "- 16" 6]
  by simp_all

lemma round32_values:
  "round32 0 = 0" "round32 (1 / 2) = 1 / 2" "round32 (25 / 32) = 25 / 32" "round32 1 = 1"
  "round32 4 = 4"
  using round32_int_pow2 [of 0 6] round32_int_pow2 [of 32 6] round32_int_pow2 [of 50 6]
    round32_int_pow2 [of 64 6] round32_of_int [of 4]
  by simp_all

text \<open>Rounding is monotone.\<close>

lemma rne_mono: "a \<le> b \<Longrightarrow> rne a \<le> rne b"
proof -
  assume ab: "a \<le> b"
  have lo: "\<lfloor>r\<rfloor> \<le> rne r" and hi: "rne r \<le> \<lfloor>r\<rfloor> + 1" for r
    by (simp_all add: rne_def Let_def)
  show ?thesis
  proof (cases "\<lfloor>a\<rfloor> = \<lfloor>b\<rfloor>")
    case True
    then show ?thesis using ab by (auto simp add: rne_def Let_def)
  next
    case False
    then have "\<lfloor>a\<rfloor> < \<lfloor>b\<rfloor>" using floor_mono [OF ab] by simp
    then have "rne a \<le> \<lfloor>b\<rfloor>" using hi [of a] by simp
    then show ?thesis using lo [of b] by simp
  qed
qed

lemma rne_minus: "rne (- r) = - rne r"
proof (cases "r = of_int \<lfloor>r\<rfloor>")
  case True
  then obtain n where "r = of_int n" by blast
  then show ?thesis using rne_of_int [of n] rne_of_int [of "- n"] by simp
next
  case False
  then have a: "of_int \<lfloor>r\<rfloor> < r" by (metis less_le of_int_floor_le)
  have b: "r < of_int \<lfloor>r\<rfloor> + 1" by linarith
  have f: "\<lfloor>- r\<rfloor> = - \<lfloor>r\<rfloor> - 1"
  proof (rule floor_unique)
    show "of_int (- \<lfloor>r\<rfloor> - 1) \<le> - r" using b by (simp, linarith)
    show "- r < of_int (- \<lfloor>r\<rfloor> - 1) + 1" using a by simp
  qed
  have d: "- r - of_int (- \<lfloor>r\<rfloor> - 1) = 1 - (r - of_int \<lfloor>r\<rfloor>)" by simp
  have e: "even (- \<lfloor>r\<rfloor> - 1) \<longleftrightarrow> \<not> even \<lfloor>r\<rfloor>" by simp
  show ?thesis
    unfolding rne_def Let_def f d e using a b by auto
qed

lemma ulp32_pos: "0 < ulp32 x"
  by (simp add: ulp32_def zero_less_power_int)

lemma ulp32_minus: "ulp32 (- x) = ulp32 x"
  by (simp add: ulp32_def)

lemma round32_minus: "round32 (- x) = - round32 x"
  by (simp add: round32_def ulp32_minus rne_minus)

lemma round32_nonneg: "0 \<le> x \<Longrightarrow> 0 \<le> round32 x"
proof -
  assume "0 \<le> x"
  then have "0 \<le> x / ulp32 x" using ulp32_pos [of x] by simp
  then have "rne 0 \<le> rne (x / ulp32 x)" by (rule rne_mono)
  then have "0 \<le> rne (x / ulp32 x)" by (simp add: rne_def)
  then show ?thesis using ulp32_pos [of x] by (simp add: round32_def)
qed

lemma round32_mono_nonneg:
  assumes "0 \<le> x" "x \<le> y"
  shows "round32 x \<le> round32 y"
proof -
  obtain kx where kx: "ulp32 x = power_int 2 kx" "- 149 \<le> kx" "kx \<le> 104"
      "kx = - 149 \<or> power_int 2 (kx + 23) \<le> \<bar>x\<bar>" "kx = 104 \<or> \<bar>x\<bar> < power_int 2 (kx + 24)"
    by (rule ulp32_cases [of x]) blast
  obtain ky where ky: "ulp32 y = power_int 2 ky" "- 149 \<le> ky" "ky \<le> 104"
      "ky = - 149 \<or> power_int 2 (ky + 23) \<le> \<bar>y\<bar>" "ky = 104 \<or> \<bar>y\<bar> < power_int 2 (ky + 24)"
    by (rule ulp32_cases [of y]) blast
  have ax: "\<bar>x\<bar> = x" and ay: "\<bar>y\<bar> = y" using assms by simp_all
  have le: "kx \<le> ky"
  proof (rule ccontr)
    assume "\<not> kx \<le> ky"
    then have l: "ky < kx" by simp
    have "kx \<noteq> - 149" using l ky(2) by simp
    then have "power_int 2 (kx + 23) \<le> x" using kx(4) ax by simp
    moreover have "ky \<noteq> 104" using l kx(3) by simp
    then have "y < power_int 2 (ky + 24)" using ky(5) ay by simp
    moreover have "power_int (2::real) (ky + 24) \<le> power_int 2 (kx + 23)"
      using l by (intro power_int_increasing) simp_all
    ultimately show False using assms(2) by simp
  qed
  show ?thesis
  proof (cases "kx = ky")
    case True
    have "x / power_int 2 ky \<le> y / power_int 2 ky"
      using assms(2) by (intro divide_right_mono) (simp_all add: zero_less_power_int less_imp_le)
    then have "rne (x / power_int 2 ky) \<le> rne (y / power_int 2 ky)" by (rule rne_mono)
    then have "real_of_int (rne (x / power_int 2 ky)) \<le> real_of_int (rne (y / power_int 2 ky))"
      by simp
    then show ?thesis
      unfolding round32_def kx(1) ky(1) True
      by (intro mult_right_mono) (simp_all add: zero_less_power_int less_imp_le)
  next
    case False
    then have l: "kx < ky" using le by simp
    have p: "0 < power_int (2::real) k" for k by (simp add: zero_less_power_int)
    have s: "power_int (2::real) (k + n) = power_int 2 n * power_int 2 k" for k n
      by (simp add: power_int_add mult.commute)
    have "kx \<noteq> 104" using l ky(3) by simp
    then have "x < power_int 2 (kx + 24)" using kx(5) ax by simp
    then have "x / power_int 2 kx \<le> of_int (2 ^ 24)"
      using p [of kx] by (simp add: s field_simps)
    then have "rne (x / power_int 2 kx) \<le> rne (of_int (2 ^ 24))" by (rule rne_mono)
    then have "rne (x / power_int 2 kx) \<le> 2 ^ 24" by (simp only: rne_of_int)
    then have "real_of_int (rne (x / power_int 2 kx)) \<le> real_of_int (2 ^ 24)"
      by (simp only: of_int_le_iff)
    then have "real_of_int (rne (x / power_int 2 kx)) \<le> 2 ^ 24" by simp
    then have "round32 x \<le> 2 ^ 24 * power_int 2 kx"
      unfolding round32_def kx(1) using p [of kx] by (intro mult_right_mono) simp_all
    also have "\<dots> = power_int 2 (kx + 24)" by (simp add: s)
    also have "\<dots> \<le> power_int 2 (ky + 23)"
      using l by (intro power_int_increasing) simp_all
    also have "\<dots> \<le> round32 y"
    proof -
      have "ky \<noteq> - 149" using l kx(2) by simp
      then have "power_int 2 (ky + 23) \<le> y" using ky(4) ay by simp
      then have "of_int (2 ^ 23) \<le> y / power_int 2 ky"
        using p [of ky] by (simp add: s field_simps)
      then have "rne (of_int (2 ^ 23)) \<le> rne (y / power_int 2 ky)" by (rule rne_mono)
      then have "2 ^ 23 \<le> rne (y / power_int 2 ky)" by (simp only: rne_of_int)
      then have "real_of_int (2 ^ 23) \<le> real_of_int (rne (y / power_int 2 ky))"
        by (simp only: of_int_le_iff)
      then have "2 ^ 23 \<le> real_of_int (rne (y / power_int 2 ky))" by simp
      then have "2 ^ 23 * power_int 2 ky \<le> round32 y"
        unfolding round32_def ky(1) using p [of ky] by (intro mult_right_mono) simp_all
      then show ?thesis by (simp add: s)
    qed
    finally show ?thesis .
  qed
qed

lemma round32_mono: "x \<le> y \<Longrightarrow> round32 x \<le> round32 y"
proof -
  assume xy: "x \<le> y"
  consider "0 \<le> x" | "x < 0" "0 \<le> y" | "y < 0" using xy by linarith
  then show ?thesis
  proof cases
    case 1
    then show ?thesis using xy by (rule round32_mono_nonneg)
  next
    case 2
    have "0 \<le> round32 (- x)" using 2(1) by (intro round32_nonneg) simp
    then have "round32 x \<le> 0" by (simp add: round32_minus)
    then show ?thesis using round32_nonneg [OF 2(2)] by simp
  next
    case 3
    have "round32 (- y) \<le> round32 (- x)" using 3 xy by (intro round32_mono_nonneg) simp_all
    then show ?thesis by (simp add: round32_minus)
  qed
qed

text \<open>
  Rounding at work: with the cell size \<open>1.1\<close> (the \<open>float32\<close> \<open>9227469 / 2^23\<close>), the
  quotients of the neighbouring \<open>float32\<close> values \<open>13841204 / 2^22\<close> and
  \<open>13841203 / 2^22\<close> (\<open>3.3\<close>) are \<open>3 + 1 / 9227469\<close> and \<open>3 - 1 / 9227469\<close>, and both
  are rounded to 3.
\<close>

lemma round32_near_three:
  "round32 (27682408 / 9227469) = 3" "round32 (27682406 / 9227469) = 3"
proof -
  have u: "ulp32 (27682408 / 9227469) = power_int 2 (1 - 23)"
    by (rule ulp32_eq) simp_all
  have v: "ulp32 (27682406 / 9227469) = power_int 2 (1 - 23)"
    by (rule ulp32_eq) simp_all
  show "round32 (27682408 / 9227469) = 3"
    by (simp add: round32_def u rne_def)
  show "round32 (27682406 / 9227469) = 3"
    by (simp add: round32_def v rne_def)
qed

subsection \<open>Cell ranges of overlapping boxes\<close>

lemma inside32_sint: "inside32 z \<Longrightarrow> sint (word_of_int z :: 32 word) = z"
  by (simp add: inside32_def sint_wi)

lemma wi_in_range32:
  assumes "inside32 lo" "inside32 hi" "lo \<le> z" "z < hi"
  shows "word_of_int z \<in> set (range32 (word_of_int lo) (word_of_int hi))"
proof -
  have "z \<in> set [lo .. hi - 1]" using assms(3,4) by simp
  then show ?thesis
    unfolding range32_def inside32_sint [OF assms(1)] inside32_sint [OF assms(2)]
    by (simp only: set_map image_eqI)
qed

lemma mem_loop_cells:
  "(cx, cy) \<in> set (loop_cells a b c d) \<longleftrightarrow> cx \<in> set (range32 a c) \<and> cy \<in> set (range32 b d)"
  by (auto simp add: loop_cells_def)

lemma overlap_cell:
  fixes a b c d :: real
  assumes "max a c < min b d"
  shows "\<exists>z. \<lfloor>a\<rfloor> \<le> z \<and> z < \<lceil>b\<rceil> \<and> \<lfloor>c\<rfloor> \<le> z \<and> z < \<lceil>d\<rceil>"
proof -
  let ?m = "max a c"
  let ?z = "\<lfloor>?m\<rfloor>"
  have 1: "\<lfloor>a\<rfloor> \<le> ?z" by (intro floor_mono) simp
  have 2: "\<lfloor>c\<rfloor> \<le> ?z" by (intro floor_mono) simp
  have up: "?z < \<lceil>v\<rceil>" if "?m < v" for v
  proof -
    have "of_int ?z \<le> ?m" by (rule of_int_floor_le)
    also have "\<dots> < v" using that .
    also have "\<dots> \<le> of_int \<lceil>v\<rceil>" by (rule le_of_int_ceiling)
    finally show ?thesis by simp
  qed
  have 3: "?z < \<lceil>b\<rceil>" using assms by (intro up) simp
  have 4: "?z < \<lceil>d\<rceil>" using assms by (intro up) simp
  show ?thesis using 1 2 3 4 by blast
qed

lemma fits32_inside32: "inside32 z \<Longrightarrow> fits32 z"
  by (simp add: inside32_def fits32_def)

lemma cellRange_fits:
  assumes "box_fits (cellWidth g) (cellHeight g) minX minY maxX maxY"
  shows "cellRange g minX minY maxX maxY
     = (word_of_int \<lfloor>round32 (minX / cellWidth g)\<rfloor>, word_of_int \<lfloor>round32 (minY / cellHeight g)\<rfloor>,
        word_of_int \<lceil>round32 (maxX / cellWidth g)\<rceil>, word_of_int \<lceil>round32 (maxY / cellHeight g)\<rceil>)"
proof -
  have w: "cellWidth g \<noteq> 0" and h: "cellHeight g \<noteq> 0" using assms by (simp_all add: box_fits_def)
  show ?thesis
    using assms
    by (simp add: cellRange_def box_fits_def floor32_fdiv [OF w] floor32_fdiv [OF h]
        ceil32_fdiv [OF w] ceil32_fdiv [OF h])
qed

lemma computeCellRange_fits:
  assumes "box_fits cellSize cellSize minX minY maxX maxY"
  shows "computeCellRange minX minY maxX maxY cellSize
     = (word_of_int \<lfloor>round32 (minX / cellSize)\<rfloor>, word_of_int \<lfloor>round32 (minY / cellSize)\<rfloor>,
        word_of_int \<lceil>round32 (maxX / cellSize)\<rceil>, word_of_int \<lceil>round32 (maxY / cellSize)\<rceil>)"
proof -
  have w: "cellSize \<noteq> 0" using assms by (simp add: box_fits_def)
  show ?thesis
    using assms
    by (simp add: computeCellRange_def box_fits_def floor32_fdiv [OF w] ceil32_fdiv [OF w])
qed

lemma in_range_fits:
  "in_range g minX minY maxX maxY \<Longrightarrow> box_fits (cellWidth g) (cellHeight g) minX minY maxX maxY"
  by (simp add: in_range_def box_fits_def fits32_inside32)

lemma in_range_cellRange:
  assumes "in_range g minX minY maxX maxY"
  shows "cellRange g minX minY maxX maxY
     = (word_of_int \<lfloor>round32 (minX / cellWidth g)\<rfloor>, word_of_int \<lfloor>round32 (minY / cellHeight g)\<rfloor>,
        word_of_int \<lceil>round32 (maxX / cellWidth g)\<rceil>, word_of_int \<lceil>round32 (maxY / cellHeight g)\<rceil>)"
  by (rule cellRange_fits) (rule in_range_fits [OF assms])

lemma query_keys_cong:
  "cellWidth g' = cellWidth g \<Longrightarrow> cellHeight g' = cellHeight g \<Longrightarrow>
   query_keys g' minX minY maxX maxY = query_keys g minX minY maxX maxY"
  by (simp add: query_keys_def cellRange_def)

lemma image_encode:
  "(\<lambda>p. EncodeGridKey (fst p) (snd p)) ` S = {EncodeGridKey cx cy | cx cy. (cx, cy) \<in> S}"
proof (intro set_eqI iffI)
  fix k
  assume "k \<in> (\<lambda>p. EncodeGridKey (fst p) (snd p)) ` S"
  then obtain p where "p \<in> S" "k = EncodeGridKey (fst p) (snd p)" by auto
  then have "k = EncodeGridKey (fst p) (snd p) \<and> (fst p, snd p) \<in> S" by simp
  then show "k \<in> {EncodeGridKey cx cy | cx cy. (cx, cy) \<in> S}" by blast
next
  fix k
  assume "k \<in> {EncodeGridKey cx cy | cx cy. (cx, cy) \<in> S}"
  then obtain cx cy where c: "k = EncodeGridKey cx cy" "(cx, cy) \<in> S" by blast
  then have "k = (\<lambda>p. EncodeGridKey (fst p) (snd p)) (cx, cy)" by simp
  then show "k \<in> (\<lambda>p. EncodeGridKey (fst p) (snd p)) ` S" using c(2) by (rule image_eqI)
qed

lemma set_query_keys:
  "set (query_keys g minX minY maxX maxY)
   = (case cellRange g minX minY maxX maxY of
        (a, b, c, d) \<Rightarrow>
          {EncodeGridKey cx cy | cx cy. cx \<in> set (range32 a c) \<and> cy \<in> set (range32 b d)})"
  by (simp add: query_keys_def image_encode mem_loop_cells split: prod.splits)

lemma common_cell:
  assumes "quotients_overlap g aMinX aMinY aMaxX aMaxY bMinX bMinY bMaxX bMaxY"
    and "in_range g aMinX aMinY aMaxX aMaxY" "in_range g bMinX bMinY bMaxX bMaxY"
  shows "\<exists>key. key \<in> set (query_keys g aMinX aMinY aMaxX aMaxY)
            \<and> key \<in> set (query_keys g bMinX bMinY bMaxX bMaxY)"
proof -
  let ?w = "cellWidth g" and ?h = "cellHeight g"
  obtain zx where zx: "\<lfloor>round32 (aMinX / ?w)\<rfloor> \<le> zx" "zx < \<lceil>round32 (aMaxX / ?w)\<rceil>"
      "\<lfloor>round32 (bMinX / ?w)\<rfloor> \<le> zx" "zx < \<lceil>round32 (bMaxX / ?w)\<rceil>"
    using overlap_cell [of "round32 (aMinX / ?w)" "round32 (bMinX / ?w)"
        "round32 (aMaxX / ?w)" "round32 (bMaxX / ?w)"] assms(1)
    by (auto simp add: quotients_overlap_def overlaps_def)
  obtain zy where zy: "\<lfloor>round32 (aMinY / ?h)\<rfloor> \<le> zy" "zy < \<lceil>round32 (aMaxY / ?h)\<rceil>"
      "\<lfloor>round32 (bMinY / ?h)\<rfloor> \<le> zy" "zy < \<lceil>round32 (bMaxY / ?h)\<rceil>"
    using overlap_cell [of "round32 (aMinY / ?h)" "round32 (bMinY / ?h)"
        "round32 (aMaxY / ?h)" "round32 (bMaxY / ?h)"] assms(1)
    by (auto simp add: quotients_overlap_def overlaps_def)
  let ?cx = "word_of_int zx :: int32" and ?cy = "word_of_int zy :: int32"
  have "EncodeGridKey ?cx ?cy \<in> set (query_keys g aMinX aMinY aMaxX aMaxY)"
    unfolding set_query_keys in_range_cellRange [OF assms(2)]
    using assms(2) zx(1,2) zy(1,2) by (auto simp add: in_range_def intro!: wi_in_range32)
  moreover have "EncodeGridKey ?cx ?cy \<in> set (query_keys g bMinX bMinY bMaxX bMaxY)"
    unfolding set_query_keys in_range_cellRange [OF assms(3)]
    using assms(3) zx(3,4) zy(3,4) by (auto simp add: in_range_def intro!: wi_in_range32)
  ultimately show ?thesis by blast
qed

lemma covers_returned:
  assumes "grid_inv g" "stamps_ok g" "gen g \<noteq> - 1"
    and "covers g e aMinX aMinY aMaxX aMaxY"
    and "quotients_overlap g aMinX aMinY aMaxX aMaxY bMinX bMinY bMaxX bMaxY"
    and "in_range g aMinX aMinY aMaxX aMaxY" "in_range g bMinX bMinY bMaxX bMaxY"
  shows "e \<in> set (fst (Query g bMinX bMinY bMaxX bMaxY))"
proof -
  obtain key where k: "key \<in> set (query_keys g aMinX aMinY aMaxX aMaxY)"
      "key \<in> set (query_keys g bMinX bMinY bMaxX bMaxY)"
    using common_cell [OF assms(5,6,7)] by blast
  have "e \<in> set (bucket (cells g) key)" using assms(4) k(1) by (simp add: covers_def)
  then have "e \<in> set (candidates g bMinX bMinY bMaxX bMaxY)"
    using k(2) by (auto simp add: candidates_def)
  then show ?thesis by (simp add: Query_set [OF assms(1,2,3)])
qed

text \<open>
  Where the divisions are exact, the boxes in cell units overlap as soon as the boxes
  themselves do.
\<close>

lemma quotients_overlap_exact:
  assumes "0 < cellWidth g" "0 < cellHeight g"
    and "overlaps aMinX aMinY aMaxX aMaxY bMinX bMinY bMaxX bMaxY"
    and "\<forall>x \<in> {aMinX, aMaxX, bMinX, bMaxX}. round32 (x / cellWidth g) = x / cellWidth g"
    and "\<forall>y \<in> {aMinY, aMaxY, bMinY, bMaxY}. round32 (y / cellHeight g) = y / cellHeight g"
  shows "quotients_overlap g aMinX aMinY aMaxX aMaxY bMinX bMinY bMaxX bMaxY"
  using assms
  by (simp add: quotients_overlap_def overlaps_def divide_strict_right_mono)

text \<open>Boxes that overlap in cell units overlap.\<close>

lemma quotients_overlap_overlaps:
  assumes "0 < cellWidth g" "0 < cellHeight g"
    and "quotients_overlap g aMinX aMinY aMaxX aMaxY bMinX bMinY bMaxX bMaxY"
  shows "overlaps aMinX aMinY aMaxX aMaxY bMinX bMinY bMaxX bMaxY"
proof -
  have m: "a < b" if "0 < c" "round32 (a / c) < round32 (b / c)" for a b c :: real
  proof (rule ccontr)
    assume "\<not> a < b"
    then have "b / c \<le> a / c" using that(1) by (intro divide_right_mono) simp_all
    then have "round32 (b / c) \<le> round32 (a / c)" by (rule round32_mono)
    then show False using that(2) by simp
  qed
  let ?w = "cellWidth g" and ?h = "cellHeight g"
  have x: "round32 (aMinX / ?w) < round32 (aMaxX / ?w)" "round32 (bMinX / ?w) < round32 (aMaxX / ?w)"
      "round32 (aMinX / ?w) < round32 (bMaxX / ?w)" "round32 (bMinX / ?w) < round32 (bMaxX / ?w)"
    and y: "round32 (aMinY / ?h) < round32 (aMaxY / ?h)" "round32 (bMinY / ?h) < round32 (aMaxY / ?h)"
      "round32 (aMinY / ?h) < round32 (bMaxY / ?h)" "round32 (bMinY / ?h) < round32 (bMaxY / ?h)"
    using assms(3) by (simp_all add: quotients_overlap_def overlaps_def)
  have "aMinX < aMaxX" "bMinX < aMaxX" "aMinX < bMaxX" "bMinX < bMaxX"
    by (rule m [OF assms(1) x(1)], rule m [OF assms(1) x(2)], rule m [OF assms(1) x(3)],
        rule m [OF assms(1) x(4)])
  moreover have "aMinY < aMaxY" "bMinY < aMaxY" "aMinY < bMaxY" "bMinY < bMaxY"
    by (rule m [OF assms(2) y(1)], rule m [OF assms(2) y(2)], rule m [OF assms(2) y(3)],
        rule m [OF assms(2) y(4)])
  ultimately show ?thesis by (simp add: overlaps_def)
qed

lemma range32_padded:
  assumes "inside32 za" "inside32 zc"
  shows "set (range32 (word_of_int za) (word_of_int zc))
       \<subseteq> set (range32 (word_of_int za - 1) (word_of_int zc + 1))"
proof -
  have a: "sint (word_of_int za - 1 :: 32 word) = za - 1"
  proof -
    have e: "(word_of_int za - 1 :: 32 word) = word_of_int (za - 1)" by simp
    have "sint (word_of_int (za - 1) :: 32 word) = za - 1"
      using assms(1) by (intro sint_wi) (simp_all add: inside32_def)
    then show ?thesis by (simp only: e)
  qed
  have c: "sint (word_of_int zc + 1 :: 32 word) = zc + 1"
  proof -
    have e: "(word_of_int zc + 1 :: 32 word) = word_of_int (zc + 1)" by simp
    have "sint (word_of_int (zc + 1) :: 32 word) = zc + 1"
      using assms(2) by (intro sint_wi) (simp_all add: inside32_def)
    then show ?thesis by (simp only: e)
  qed
  show ?thesis
    unfolding set_range32
    by (auto simp add: word_sle_eq word_sless_alt a c inside32_sint [OF assms(1)]
        inside32_sint [OF assms(2)])
qed

lemma set_claimed_keys_all:
  "set (claimed_keys g minX minY maxX maxY padding None)
   = (case padded padding (cellRange g minX minY maxX maxY) of
        (a, b, c, d) \<Rightarrow>
          {EncodeGridKey cx cy | cx cy. cx \<in> set (range32 a c) \<and> cy \<in> set (range32 b d)})"
  by (simp add: claimed_keys_def doInsert_def image_encode mem_loop_cells split: prod.splits)

lemma query_keys_subset_claimed:
  assumes "in_range g minX minY maxX maxY"
  shows "set (query_keys g minX minY maxX maxY)
       \<subseteq> set (claimed_keys g minX minY maxX maxY padding None)"
proof (cases "padding = GridCellPadding")
  case False
  then show ?thesis
    by (simp add: set_claimed_keys_all set_query_keys padded_def split: prod.splits)
next
  case True
  let ?a = "\<lfloor>round32 (minX / cellWidth g)\<rfloor>" and ?b = "\<lfloor>round32 (minY / cellHeight g)\<rfloor>"
  let ?c = "\<lceil>round32 (maxX / cellWidth g)\<rceil>" and ?d = "\<lceil>round32 (maxY / cellHeight g)\<rceil>"
  have x: "set (range32 (word_of_int ?a) (word_of_int ?c))
      \<subseteq> set (range32 (word_of_int ?a - 1) (word_of_int ?c + 1))"
    using assms by (intro range32_padded) (simp_all add: in_range_def)
  have y: "set (range32 (word_of_int ?b) (word_of_int ?d))
      \<subseteq> set (range32 (word_of_int ?b - 1) (word_of_int ?d + 1))"
    using assms by (intro range32_padded) (simp_all add: in_range_def)
  show ?thesis
    using True x y
    by (auto simp add: set_claimed_keys_all set_query_keys padded_def
        in_range_cellRange [OF assms])
qed

lemma covers_Insert:
  assumes "\<not> Contains g e" "in_range g minX minY maxX maxY"
  shows "covers (snd (Insert g e minX minY maxX maxY padding)) e minX minY maxX maxY"
proof -
  let ?g = "snd (Insert g e minX minY maxX maxY padding)"
  let ?K = "claimed_keys g minX minY maxX maxY padding None"
  have q: "query_keys ?g minX minY maxX maxY = query_keys g minX minY maxX maxY"
    by (rule query_keys_cong) (simp_all add: Insert_def insert_grid_absent [OF assms(1)])
  have "e \<in> set (bucket (cells ?g) key)" if "key \<in> set ?K" for key
    using that by (simp add: Insert_def insert_grid_absent [OF assms(1)] bucket_def)
  then show ?thesis
    using query_keys_subset_claimed [OF assms(2), of padding]
    by (auto simp add: covers_def q)
qed

lemma bucket_insert_grid_grows:
  "set (bucket (cells g) k) \<subseteq> set (bucket (cells (snd (insert_grid g item minX minY maxX maxY padding fn))) k)"
proof (cases "Contains g item")
  case True
  then show ?thesis by (simp add: insert_grid_def)
next
  case False
  show ?thesis by (auto simp add: insert_grid_absent [OF False] bucket_def)
qed

lemma insert_grid_size:
  "cellWidth (snd (insert_grid g item minX minY maxX maxY padding fn)) = cellWidth g"
  "cellHeight (snd (insert_grid g item minX minY maxX maxY padding fn)) = cellHeight g"
proof -
  show "cellWidth (snd (insert_grid g item minX minY maxX maxY padding fn)) = cellWidth g"
  proof (cases "Contains g item")
    case True
    then show ?thesis by (simp add: insert_grid_def)
  next
    case False
    show ?thesis by (simp add: insert_grid_absent [OF False])
  qed
  show "cellHeight (snd (insert_grid g item minX minY maxX maxY padding fn)) = cellHeight g"
  proof (cases "Contains g item")
    case True
    then show ?thesis by (simp add: insert_grid_def)
  next
    case False
    show ?thesis by (simp add: insert_grid_absent [OF False])
  qed
qed

lemma covers_insert_grid:
  assumes "covers g e minX minY maxX maxY"
  shows "covers (snd (insert_grid g item aMinX aMinY aMaxX aMaxY padding fn)) e minX minY maxX maxY"
proof -
  let ?g = "snd (insert_grid g item aMinX aMinY aMaxX aMaxY padding fn)"
  have q: "query_keys ?g minX minY maxX maxY = query_keys g minX minY maxX maxY"
    by (rule query_keys_cong) (simp_all add: insert_grid_size)
  show ?thesis
    using assms bucket_insert_grid_grows [of g _ item aMinX aMinY aMaxX aMaxY padding fn]
    by (auto simp add: covers_def q)
qed

lemma covers_Remove_other:
  assumes "grid_inv g" "e \<noteq> item" "covers g e minX minY maxX maxY"
  shows "covers (Remove g item) e minX minY maxX maxY"
proof -
  have q: "query_keys (Remove g item) minX minY maxX maxY = query_keys g minX minY maxX maxY"
    by (rule query_keys_cong) (simp_all add: Remove_def Let_def)
  show ?thesis
    using assms(2,3) by (simp add: covers_def q bucket_Remove [OF assms(1)])
qed

lemma covers_Query:
  assumes "covers g e minX minY maxX maxY"
  shows "covers (snd (Query g aMinX aMinY aMaxX aMaxY)) e minX minY maxX maxY"
proof -
  have q: "query_keys (snd (Query g aMinX aMinY aMaxX aMaxY)) minX minY maxX maxY
      = query_keys g minX minY maxX maxY"
    by (rule query_keys_cong) (simp_all add: Query_frame)
  show ?thesis using assms by (simp add: covers_def q Query_frame)
qed

subsection \<open>Every grid the operations build satisfies its invariant\<close>

lemma reachable_grid_inv: "reachable g \<Longrightarrow> grid_inv g"
proof (induction rule: reachable.induct)
  case (1 cw ch)
  show ?case by (rule grid_inv_NewGrid)
next
  case (2 g item minX minY maxX maxY padding fn)
  then show ?case by (intro grid_inv_insert_grid)
next
  case (3 g item)
  then show ?case by (intro grid_inv_Remove)
next
  case (4 g minX minY maxX maxY)
  then show ?case by (intro grid_inv_Query)
next
  case (5 g)
  show ?case by (rule grid_inv_Clear)
next
  case (6 g cw ch)
  then show ?case by (intro grid_inv_Resize)
qed

lemma part0_inv_GetKeys: "part0_inv g \<Longrightarrow> part0_inv (snd (part0_GetKeys m g entry check))"
  by (simp add: part0_GetKeys_def getKeysInternal_keys part0_inv_def)

lemma part0_reachable_inv: "part0_reachable g \<Longrightarrow> part0_inv g"
proof (induction rule: part0_reachable.induct)
  case (1 cellSize g)
  then show ?case by (rule part0_inv_New)
next
  case (2 g m entry check)
  then show ?case by (intro part0_inv_GetKeys)
next
  case (3 g m entry check)
  then show ?case by (intro part0_inv_InsertStrictCheck)
next
  case (4 g entry)
  then show ?case by (intro part0_inv_Remove)
next
  case (5 g minX minY maxX maxY)
  then show ?case by (intro part0_inv_QueryUnsafe)
next
  case (6 g)
  show ?case by (rule part0_inv_Clear)
qed

text \<open>
  The stamps stay below the generation counter as long as the counter has not reached
  its last value, \<open>2^64 - 1\<close>, at a query.
\<close>

lemma stamps_ok_kept:
  "stamps_ok (NewGrid cw ch)"
  "stamps_ok g \<Longrightarrow> stamps_ok (snd (insert_grid g item minX minY maxX maxY padding fn))"
  "stamps_ok g \<Longrightarrow> stamps_ok (Remove g item)"
  "stamps_ok g \<Longrightarrow> gen g \<noteq> - 1 \<Longrightarrow> stamps_ok (snd (Query g minX minY maxX maxY))"
  "stamps_ok (Clear h)"
  "stamps_ok h \<Longrightarrow> stamps_ok (Resize h cw ch)"
  by (rule stamps_ok_NewGrid, erule stamps_ok_insert_grid, erule stamps_ok_Remove,
      erule (1) stamps_ok_Query, rule stamps_ok_Clear, erule stamps_ok_Resize)

subsection \<open>Concrete grids\<close>

lemma ceiling_half: "\<lceil>(1::real) / 2\<rceil> = 1"
  by (simp add: ceiling_eq_iff)

lemma cellRange_example:
  "cellWidth g = 64 \<Longrightarrow> cellHeight g = 64 \<Longrightarrow> cellRange g 0 0 32 32 = (0, 0, 1, 1)"
  by (simp add: cellRange_def floor32_def ceil32_def int32_of_def fdiv_values ceiling_half)

lemma loop_one_cell: "for32 0 1 (\<lambda>cy. for32 0 1 (\<lambda>cx. f cx cy)) s = f 0 0 s"
  by (simp add: for32.simps word_sless_alt)

lemma Insert_example:
  "Insert (NewGrid 64 64) (a :: 'a) 0 0 32 32 NoGridPadding =
     (True, \<lparr>gen = 0, cellWidth = 64, cellHeight = 64,
             cells = [EncodeGridKey 0 0 \<mapsto> [a]], items = [a \<mapsto> 0],
             itemCells = [a \<mapsto> [EncodeGridKey 0 0]], qBuf = []\<rparr>)"
proof -
  have r: "cellRange (NewGrid 64 64 :: 'a Grid) 0 0 32 32 = (0, 0, 1, 1)"
    by (rule cellRange_example) (simp_all add: NewGrid_def)
  show ?thesis
    unfolding Insert_def insert_grid_def r
    by (simp add: Contains_def NoGridPadding_def GridCellPadding_def loop_one_cell
        doInsert_def insert_cell_def bucket_def)
       (simp add: NewGrid_def)
qed

lemma InsertFunc_reject_example:
  "InsertFunc (NewGrid 64 64) (a :: 'a) 0 0 32 32 NoGridPadding (Some (\<lambda>_ _ _ _. False)) =
     (True, \<lparr>gen = 0, cellWidth = 64, cellHeight = 64,
             cells = Map.empty, items = [a \<mapsto> 0],
             itemCells = [a \<mapsto> []], qBuf = []\<rparr>)"
proof -
  have r: "cellRange (NewGrid 64 64 :: 'a Grid) 0 0 32 32 = (0, 0, 1, 1)"
    by (rule cellRange_example) (simp_all add: NewGrid_def)
  show ?thesis
    unfolding InsertFunc_def insert_grid_def r
    by (simp add: Contains_def NoGridPadding_def GridCellPadding_def loop_one_cell
        doInsert_def)
       (simp add: NewGrid_def)
qed

lemma Query_example_hit:
  "fst (Query (snd (Insert (NewGrid 64 64) (a :: 'a) 0 0 32 32 NoGridPadding)) 0 0 50 50) = [a]"
proof -
  have c: "\<lceil>(25::real) / 32\<rceil> = 1" by (simp add: ceiling_eq_iff)
  show ?thesis
    unfolding Insert_example snd_conv
    by (simp add: Query_def cellRange_def floor32_def ceil32_def int32_of_def fdiv_values c loop_one_cell
        visit_cell_def visit_item_def stamp_def)
qed

lemma Query_example_miss:
  "fst (Query (snd (Insert (NewGrid 64 64) (a :: 'a) 0 0 32 32 NoGridPadding)) 1000 1000 1100 1100) = []"
proof -
  have k: "EncodeGridKey cx cy \<noteq> EncodeGridKey 0 0" if "cx \<in> set (range32 15 18)" for cx cy
  proof -
    have "cx \<noteq> 0" using that by (auto simp add: set_range32 word_sle_eq word_sless_alt)
    then show ?thesis by (simp add: EncodeGridKey_inj)
  qed
  have cand: "candidates (snd (Insert (NewGrid 64 64) a 0 0 32 32 NoGridPadding)) 1000 1000 1100 1100 = []"
    unfolding Insert_example snd_conv
    by (auto simp add: candidates_def query_keys_def cellRange_def floor32_def ceil32_def int32_of_def fdiv_values
        bucket_def mem_loop_cells k)
  show ?thesis by (simp add: Query_fold cand Let_def)
qed

lemma Query_reject_example:
  "fst (Query (snd (InsertFunc (NewGrid 64 64) (a :: 'a) 0 0 32 32 NoGridPadding (Some (\<lambda>_ _ _ _. False))))
         0 0 50 50) = []"
proof -
  have c: "\<lceil>(25::real) / 32\<rceil> = 1" by (simp add: ceiling_eq_iff)
  show ?thesis
    unfolding InsertFunc_reject_example snd_conv
    by (simp add: Query_def cellRange_def floor32_def ceil32_def int32_of_def fdiv_values c loop_one_cell
        visit_cell_def)
qed

lemma NewGrid_empty: "\<not> Contains (NewGrid cw ch) e"
  by (simp add: Contains_def NewGrid_def)

lemma NewGrid_size: "cellWidth (NewGrid cw ch) = cw" "cellHeight (NewGrid cw ch) = ch"
  by (simp_all add: NewGrid_def)

lemma in_range_examples:
  "cellWidth g = 64 \<Longrightarrow> cellHeight g = 64 \<Longrightarrow> in_range g 0 0 32 32"
  "cellWidth g = 64 \<Longrightarrow> cellHeight g = 64 \<Longrightarrow> in_range g 0 0 50 50"
proof -
  have c: "\<lceil>(25::real) / 32\<rceil> = 1" by (simp add: ceiling_eq_iff)
  show "cellWidth g = 64 \<Longrightarrow> cellHeight g = 64 \<Longrightarrow> in_range g 0 0 32 32"
    by (simp add: in_range_def inside32_def ceiling_half round32_values)
  show "cellWidth g = 64 \<Longrightarrow> cellHeight g = 64 \<Longrightarrow> in_range g 0 0 50 50"
    by (simp add: in_range_def inside32_def c round32_values)
qed

text \<open>
  Boxes that only touch share no cell: after inserting \<open>a\<close> with box \<open>[0,0,64,64]\<close>,
  which claims cell \<open>(0,0)\<close>, the query of \<open>[64,64,100,100]\<close> scans cell \<open>(1,1)\<close> and
  returns nothing.
\<close>

lemma Query_touching_example:
  "fst (Query (snd (Insert (NewGrid 64 64) (a :: 'a) 0 0 64 64 NoGridPadding)) 64 64 100 100) = []"
proof -
  have r: "cellRange (NewGrid 64 64 :: 'a Grid) 0 0 64 64 = (0, 0, 1, 1)"
    by (simp add: cellRange_def floor32_def ceil32_def int32_of_def fdiv_values NewGrid_def)
  have i: "Insert (NewGrid 64 64) a 0 0 64 64 NoGridPadding =
     (True, \<lparr>gen = 0, cellWidth = 64, cellHeight = 64,
             cells = [EncodeGridKey 0 0 \<mapsto> [a]], items = [a \<mapsto> 0],
             itemCells = [a \<mapsto> [EncodeGridKey 0 0]], qBuf = []\<rparr>)"
    unfolding Insert_def insert_grid_def r
    by (simp add: Contains_def NoGridPadding_def GridCellPadding_def loop_one_cell
        doInsert_def insert_cell_def bucket_def)
       (simp add: NewGrid_def)
  have c: "\<lceil>(25::real) / 16\<rceil> = 2" by (simp add: ceiling_eq_iff)
  have l: "for32 1 2 (\<lambda>cy. for32 1 2 (\<lambda>cx. f cx cy)) s = f 1 1 s" for f :: "int32 \<Rightarrow> int32 \<Rightarrow> 's \<Rightarrow> 's" and s
    by (simp add: for32.simps word_sless_alt)
  show ?thesis
    unfolding i snd_conv
    by (simp add: Query_def cellRange_def floor32_def ceil32_def int32_of_def fdiv_values c l visit_cell_def
        EncodeGridKey_inj)
qed


text \<open>
  The generation counter wraps around: at \<open>gen = 2^64 - 1\<close>, a state that takes
  \<open>2^64 - 1\<close> queries to reach, the next query has generation 0, the stamp of an item
  that was never reported, and misses it.
\<close>

lemma Query_after_wrap_example:
  "fst (Query \<lparr>gen = - 1, cellWidth = 64, cellHeight = 64,
               cells = [EncodeGridKey 0 0 \<mapsto> [a]], items = [a \<mapsto> 0],
               itemCells = [a \<mapsto> [EncodeGridKey 0 0]], qBuf = []\<rparr> 0 0 50 50) = []"
proof -
  have c: "\<lceil>(25::real) / 32\<rceil> = 1" by (simp add: ceiling_eq_iff)
  show ?thesis
    by (simp add: Query_def cellRange_def floor32_def ceil32_def int32_of_def fdiv_values c loop_one_cell
        visit_cell_def visit_item_def stamp_def)
qed

text \<open>
  Boxes that overlap share no cell when the divisions round the quotients of their edges
  to the same number. With the cell size \<open>1.1\<close>, the \<open>float32\<close> \<open>9227469 / 2^23\<close>, the
  entry with the box \<open>[0, 0, 3460301 / 2^20, 1.1]\<close> claims the columns 0, 1 and 2: the
  quotient of its right edge is rounded down to 3. The rectangle
  \<open>[13841203 / 2^22, 0, 4.4, 1.1]\<close>, whose left edge is the \<open>float32\<close> \<open>3.3\<close> just below
  that right edge, is scanned from column 3 on: the quotient of its left edge is rounded
  up to 3. The two overlap with width \<open>2^-22\<close> and the query returns nothing.
\<close>

lemma cellRange_rounding_example:
  assumes "cellWidth g = 9227469 / 8388608" "cellHeight g = 9227469 / 8388608"
  shows "cellRange g 0 0 (3460301 / 1048576) (9227469 / 8388608) = (0, 0, 3, 1)"
    and "cellRange g (13841203 / 4194304) 0 (9227469 / 2097152) (9227469 / 8388608) = (3, 0, 4, 1)"
  unfolding cellRange_def assms
  by (simp_all add: fdiv_def to_float32_def Let_def round32_near_three round32_values
      MaxFloat32_def floor32_def ceil32_def int32_of_def)

lemma Query_rounding_example:
  "overlaps 0 0 (3460301 / 1048576) (9227469 / 8388608)
     (13841203 / 4194304) 0 (9227469 / 2097152) (9227469 / 8388608)
   \<and> fst (Query (snd (Insert (NewGrid (9227469 / 8388608) (9227469 / 8388608)) (a :: 'a)
                        0 0 (3460301 / 1048576) (9227469 / 8388608) NoGridPadding))
           (13841203 / 4194304) 0 (9227469 / 2097152) (9227469 / 8388608)) = []"
proof -
  let ?n = "NewGrid (9227469 / 8388608) (9227469 / 8388608) :: 'a Grid"
  let ?K = "claimed_keys ?n 0 0 (3460301 / 1048576) (9227469 / 8388608) NoGridPadding None"
  let ?g = "snd (Insert ?n a 0 0 (3460301 / 1048576) (9227469 / 8388608) NoGridPadding)"
  have e: "\<not> Contains ?n a" by (rule NewGrid_empty)
  have w: "cellWidth ?g = 9227469 / 8388608" "cellHeight ?g = 9227469 / 8388608"
    by (simp_all add: Insert_def insert_grid_size NewGrid_size)
  have c0: "cells ?g = (\<lambda>k. if k \<in> set ?K then Some (bucket (cells ?n) k @ [a]) else cells ?n k)"
    by (simp add: Insert_def insert_grid_absent [OF e])
  have n: "cells ?n = Map.empty" by (simp add: NewGrid_def)
  have c: "cells ?g = (\<lambda>k. if k \<in> set ?K then Some [a] else None)"
    unfolding c0 n by (simp add: bucket_def cong: if_cong)
  have K: "set ?K = {EncodeGridKey cx cy | cx cy. cx \<in> set (range32 0 3) \<and> cy \<in> set (range32 0 1)}"
    by (simp add: set_claimed_keys_all padded_def cellRange_rounding_example(1) NewGrid_size
        NoGridPadding_def GridCellPadding_def)
  have q: "set (query_keys ?g (13841203 / 4194304) 0 (9227469 / 2097152) (9227469 / 8388608))
      = {EncodeGridKey cx cy | cx cy. cx \<in> set (range32 3 4) \<and> cy \<in> set (range32 0 1)}"
    by (simp add: set_query_keys cellRange_rounding_example(2) [OF w])
  have "bucket (cells ?g) key = []"
    if "key \<in> set (query_keys ?g (13841203 / 4194304) 0 (9227469 / 2097152) (9227469 / 8388608))"
    for key
    using that unfolding q c K
    by (auto simp add: bucket_def EncodeGridKey_inj set_range32 word_sle_eq word_sless_alt)
  then have cand: "candidates ?g (13841203 / 4194304) 0 (9227469 / 2097152) (9227469 / 8388608) = []"
    by (simp add: candidates_def)
  have "fst (Query ?g (13841203 / 4194304) 0 (9227469 / 2097152) (9227469 / 8388608)) = []"
    by (simp add: Query_fold cand Let_def)
  moreover have "overlaps 0 0 (3460301 / 1048576) (9227469 / 8388608)
     (13841203 / 4194304) 0 (9227469 / 2097152) (9227469 / 8388608)"
    by (simp add: overlaps_def)
  ultimately show ?thesis by simp
qed

subsection \<open>C1: what Query returns\<close>

text \<open>
  The claim as stated fails in package \<open>hash\<close> for an entry whose insertion predicate
  rejects every cell: the entry is present, its box \<open>[0,0,32,32]\<close> overlaps the query
  rectangle \<open>[0,0,50,50]\<close>, and \<open>Query\<close> returns nothing.
\<close>

theorem query_misses_rejected_entry:
  "Contains (snd (InsertFunc (NewGrid 64 64) (1::int) 0 0 32 32 NoGridPadding (Some (\<lambda>_ _ _ _. False)))) 1
   \<and> fst (Query (snd (InsertFunc (NewGrid 64 64) (1::int) 0 0 32 32 NoGridPadding (Some (\<lambda>_ _ _ _. False))))
            0 0 50 50) = []"
  by (simp add: Query_reject_example) (simp add: InsertFunc_reject_example Contains_def)

text \<open>
  C1, amended: in package \<open>hash\<close>, \<open>Query\<close> never returns an entry twice. It
  returns the entry \<open>e\<close> whenever \<open>e\<close> is stored in every cell of the cell range of a
  box (\<open>covers\<close>), that box and the query rectangle, each coordinate divided by the cell
  size in \<open>float32\<close> arithmetic, overlap with positive width and height
  (\<open>quotients_overlap\<close>), both cell sizes are positive and the cell coordinates of both
  boxes lie strictly inside the \<open>int32\<close> range (\<open>in_range\<close>), the grid satisfies its
  invariant (\<open>grid_inv\<close>), no stamp exceeds the generation counter (\<open>stamps_ok\<close>) and the
  counter is not at its last value. \<open>Insert\<close>, which accepts every cell, stores a new
  entry in every cell of the range of its box. With cell size 64, after inserting \<open>e\<close>
  with box \<open>[0,0,32,32]\<close>, \<open>Query([0,0,50,50])\<close> is \<open>[e]\<close> and
  \<open>Query([1000,1000,1100,1100])\<close> is empty. The conditions are needed: boxes that only
  touch share no cell (\<open>Query_touching_example\<close>), boxes that overlap by less than the
  rounding of the division may share none either (\<open>Query_rounding_example\<close>), and a
  wrapped counter hides unreported items (\<open>Query_after_wrap_example\<close>). Boxes that
  overlap in cell units overlap (\<open>quotients_overlap_overlaps\<close>), and where the
  divisions are exact, boxes that overlap do so in cell units
  (\<open>quotients_overlap_exact\<close>); \<open>reachable_grid_inv\<close> and \<open>stamps_ok_kept\<close> show that the
  operations keep the invariant and the stamps.
\<close>

theorem query_reports_covering_entries_once:
  "distinct (fst (Query g bMinX bMinY bMaxX bMaxY))
   \<and> (grid_inv g \<and> stamps_ok g \<and> gen g \<noteq> - 1
        \<and> covers g e aMinX aMinY aMaxX aMaxY
        \<and> quotients_overlap g aMinX aMinY aMaxX aMaxY bMinX bMinY bMaxX bMaxY
        \<and> in_range g aMinX aMinY aMaxX aMaxY \<and> in_range g bMinX bMinY bMaxX bMaxY
      \<longrightarrow> e \<in> set (fst (Query g bMinX bMinY bMaxX bMaxY)))
   \<and> (\<not> Contains g e \<and> in_range g aMinX aMinY aMaxX aMaxY
      \<longrightarrow> covers (snd (Insert g e aMinX aMinY aMaxX aMaxY padding)) e aMinX aMinY aMaxX aMaxY)
   \<and> fst (Query (snd (Insert (NewGrid 64 64) e 0 0 32 32 NoGridPadding)) 0 0 50 50) = [e]
   \<and> fst (Query (snd (Insert (NewGrid 64 64) e 0 0 32 32 NoGridPadding)) 1000 1000 1100 1100) = []"
proof (intro conjI impI)
  show "distinct (fst (Query g bMinX bMinY bMaxX bMaxY))" by (rule Query_result(1))
next
  assume h: "grid_inv g \<and> stamps_ok g \<and> gen g \<noteq> - 1
        \<and> covers g e aMinX aMinY aMaxX aMaxY
        \<and> quotients_overlap g aMinX aMinY aMaxX aMaxY bMinX bMinY bMaxX bMaxY
        \<and> in_range g aMinX aMinY aMaxX aMaxY \<and> in_range g bMinX bMinY bMaxX bMaxY"
  then show "e \<in> set (fst (Query g bMinX bMinY bMaxX bMaxY))"
    by (intro covers_returned [where aMinX = aMinX and aMinY = aMinY and aMaxX = aMaxX and aMaxY = aMaxY])
       simp_all
next
  assume "\<not> Contains g e \<and> in_range g aMinX aMinY aMaxX aMaxY"
  then show "covers (snd (Insert g e aMinX aMinY aMaxX aMaxY padding)) e aMinX aMinY aMaxX aMaxY"
    by (intro covers_Insert) simp_all
next
  show "fst (Query (snd (Insert (NewGrid 64 64) e 0 0 32 32 NoGridPadding)) 0 0 50 50) = [e]"
    by (rule Query_example_hit)
next
  show "fst (Query (snd (Insert (NewGrid 64 64) e 0 0 32 32 NoGridPadding)) 1000 1000 1100 1100) = []"
    by (rule Query_example_miss)
qed

theorem query_reports_covering_entries_once_witness:
  "grid_inv (snd (Insert (NewGrid 64 64) (1::int) 0 0 32 32 NoGridPadding))
   \<and> stamps_ok (snd (Insert (NewGrid 64 64) (1::int) 0 0 32 32 NoGridPadding))
   \<and> gen (snd (Insert (NewGrid 64 64) (1::int) 0 0 32 32 NoGridPadding)) \<noteq> - 1
   \<and> covers (snd (Insert (NewGrid 64 64) (1::int) 0 0 32 32 NoGridPadding)) 1 0 0 32 32
   \<and> quotients_overlap (snd (Insert (NewGrid 64 64) (1::int) 0 0 32 32 NoGridPadding))
        0 0 32 32 0 0 50 50
   \<and> in_range (snd (Insert (NewGrid 64 64) (1::int) 0 0 32 32 NoGridPadding)) 0 0 32 32
   \<and> in_range (snd (Insert (NewGrid 64 64) (1::int) 0 0 32 32 NoGridPadding)) 0 0 50 50
   \<and> \<not> Contains (NewGrid 64 64) (1::int)
   \<and> (1::int) \<in> set (fst (Query (snd (Insert (NewGrid 64 64) (1::int) 0 0 32 32 NoGridPadding)) 0 0 50 50))
   \<and> distinct (fst (Query (snd (Insert (NewGrid 64 64) (1::int) 0 0 32 32 NoGridPadding)) 0 0 50 50))"
proof -
  let ?n = "NewGrid 64 64 :: int Grid"
  let ?g = "snd (Insert ?n 1 0 0 32 32 NoGridPadding)"
  have s: "cellWidth ?g = 64" "cellHeight ?g = 64" "gen ?g = 0"
    by (simp_all add: Insert_example)
  have s0: "cellWidth ?n = 64" "cellHeight ?n = 64" by (simp_all add: NewGrid_def)
  have 1: "grid_inv ?g"
    unfolding Insert_def by (rule grid_inv_insert_grid) (rule grid_inv_NewGrid)
  have 2: "stamps_ok ?g"
    unfolding Insert_def by (rule stamps_ok_insert_grid) (rule stamps_ok_NewGrid)
  have 3: "gen ?g \<noteq> - 1" by (simp add: s)
  have 4: "\<not> Contains ?n 1" by (rule NewGrid_empty)
  have 5: "in_range ?n 0 0 32 32" by (rule in_range_examples(1) [OF s0])
  have 6: "in_range ?g 0 0 32 32" by (rule in_range_examples(1) [OF s(1,2)])
  have 7: "in_range ?g 0 0 50 50" by (rule in_range_examples(2) [OF s(1,2)])
  have 8: "quotients_overlap ?g 0 0 32 32 0 0 50 50"
    by (simp add: quotients_overlap_def overlaps_def s round32_values)
  have 9: "covers ?g 1 0 0 32 32"
    using query_reports_covering_entries_once
      [where g = ?n and e = 1 and aMinX = 0 and aMinY = 0 and aMaxX = 32 and aMaxY = 32
         and padding = NoGridPadding] 4 5
    by blast
  have 10: "(1::int) \<in> set (fst (Query ?g 0 0 50 50)) \<and> distinct (fst (Query ?g 0 0 50 50))"
    using query_reports_covering_entries_once
      [where g = ?g and e = 1 and aMinX = 0 and aMinY = 0 and aMaxX = 32 and aMaxY = 32
         and bMinX = 0 and bMinY = 0 and bMaxX = 50 and bMaxY = 50]
      1 2 3 6 7 8 9
    by simp
  show ?thesis using 1 2 3 4 6 7 8 9 10 by blast
qed

subsection \<open>C2: the invariants of the grid\<close>

lemma InsertFunc_reject_all:
  assumes "\<not> Contains g e" "\<forall>a b c d. \<not> f a b c d"
  shows "itemCells (snd (InsertFunc g e minX minY maxX maxY padding (Some f))) e = Some []"
    and "cells (snd (InsertFunc g e minX minY maxX maxY padding (Some f))) = cells g"
proof -
  have "claimed_keys g minX minY maxX maxY padding (Some f) = []"
    using assms(2) by (simp add: claimed_keys_def doInsert_def Let_def split: prod.splits)
  then show "itemCells (snd (InsertFunc g e minX minY maxX maxY padding (Some f))) e = Some []"
    and "cells (snd (InsertFunc g e minX minY maxX maxY padding (Some f))) = cells g"
    by (simp_all add: InsertFunc_def insert_grid_absent [OF assms(1)])
qed

text \<open>
  The claim as stated fails: after an insertion whose predicate rejects every cell,
  the entry is in the reverse index (with an empty key list) and in no bucket, so
  "in the reverse index if and only if in at least one bucket" does not hold.
\<close>

theorem rejected_entry_is_indexed_but_in_no_bucket:
  "Contains (snd (InsertFunc (NewGrid 64 64) (1::int) 0 0 32 32 NoGridPadding (Some (\<lambda>_ _ _ _. False)))) 1
   \<and> itemCells (snd (InsertFunc (NewGrid 64 64) (1::int) 0 0 32 32 NoGridPadding (Some (\<lambda>_ _ _ _. False)))) 1
       = Some []
   \<and> (\<forall>k. 1 \<notin> set (bucket (cells (snd (InsertFunc (NewGrid 64 64) (1::int) 0 0 32 32 NoGridPadding
                                          (Some (\<lambda>_ _ _ _. False))))) k))"
  by (simp add: InsertFunc_reject_example Contains_def bucket_def)

text \<open>
  C2, amended: the invariant \<open>grid_inv\<close> of package \<open>hash\<close> holds for a new grid and
  is kept by \<open>Insert\<close>, \<open>InsertFunc\<close>, \<open>Remove\<close>, \<open>Query\<close>, \<open>Clear\<close> and
  \<open>Resize\<close>. It says: the reverse index and the stamp map have the same entries;
  the key list of an entry has no duplicates and the entry is exactly once in the
  bucket of each of its keys; no bucket is empty; and an entry found in a bucket is in
  the reverse index with that bucket's key in its list. An entry may be in the reverse
  index and in no bucket: a new entry whose predicate rejects every cell is recorded
  with the empty key list and the buckets stay as they were.
\<close>

theorem grid_invariant_kept:
  "grid_inv (NewGrid cw ch :: ('a::zero) Grid)
   \<and> (grid_inv (g :: 'a Grid) \<longrightarrow>
        grid_inv (snd (Insert g e minX minY maxX maxY padding))
        \<and> grid_inv (snd (InsertFunc g e minX minY maxX maxY padding fn))
        \<and> grid_inv (Remove g e)
        \<and> grid_inv (snd (Query g minX minY maxX maxY))
        \<and> grid_inv (Clear g)
        \<and> grid_inv (Resize g cw ch))
   \<and> (\<not> Contains g e \<and> (\<forall>a b c d. \<not> f a b c d) \<longrightarrow>
        itemCells (snd (InsertFunc g e minX minY maxX maxY padding (Some f))) e = Some []
        \<and> cells (snd (InsertFunc g e minX minY maxX maxY padding (Some f))) = cells g)"
proof (intro conjI impI)
  show "grid_inv (NewGrid cw ch :: 'a Grid)" by (rule grid_inv_NewGrid)
next
  assume "grid_inv g"
  then show "grid_inv (snd (Insert g e minX minY maxX maxY padding))"
    unfolding Insert_def by (rule grid_inv_insert_grid)
next
  assume "grid_inv g"
  then show "grid_inv (snd (InsertFunc g e minX minY maxX maxY padding fn))"
    unfolding InsertFunc_def by (rule grid_inv_insert_grid)
next
  assume "grid_inv g"
  then show "grid_inv (Remove g e)" by (rule grid_inv_Remove)
next
  assume "grid_inv g"
  then show "grid_inv (snd (Query g minX minY maxX maxY))" by (rule grid_inv_Query)
next
  show "grid_inv (Clear g)" by (rule grid_inv_Clear)
next
  assume "grid_inv g"
  then show "grid_inv (Resize g cw ch)" by (rule grid_inv_Resize)
next
  assume "\<not> Contains g e \<and> (\<forall>a b c d. \<not> f a b c d)"
  then show "itemCells (snd (InsertFunc g e minX minY maxX maxY padding (Some f))) e = Some []"
    by (intro InsertFunc_reject_all(1)) simp_all
next
  assume "\<not> Contains g e \<and> (\<forall>a b c d. \<not> f a b c d)"
  then show "cells (snd (InsertFunc g e minX minY maxX maxY padding (Some f))) = cells g"
    by (intro InsertFunc_reject_all(2)) simp_all
qed

theorem grid_invariant_kept_witness:
  "grid_inv (NewGrid 64 64 :: int Grid)
   \<and> \<not> Contains (NewGrid 64 64 :: int Grid) 1
   \<and> grid_inv (snd (Insert (NewGrid 64 64) (1::int) 0 0 32 32 NoGridPadding))
   \<and> grid_inv (Remove (snd (Insert (NewGrid 64 64) (1::int) 0 0 32 32 NoGridPadding)) 1)
   \<and> grid_inv (snd (Query (snd (Insert (NewGrid 64 64) (1::int) 0 0 32 32 NoGridPadding)) 0 0 50 50))
   \<and> grid_inv (Resize (snd (Insert (NewGrid 64 64) (1::int) 0 0 32 32 NoGridPadding)) 32 32)
   \<and> itemCells (snd (InsertFunc (NewGrid 64 64) (1::int) 0 0 32 32 NoGridPadding
                        (Some (\<lambda>_ _ _ _. False)))) 1 = Some []"
proof -
  let ?n = "NewGrid 64 64 :: int Grid"
  let ?g = "snd (Insert ?n 1 0 0 32 32 NoGridPadding)"
  have 0: "grid_inv ?n" "\<not> Contains ?n 1"
    by (rule grid_inv_NewGrid, rule NewGrid_empty)
  have 1: "grid_inv ?g"
    using grid_invariant_kept [where g = ?n and e = 1 and minX = 0 and minY = 0 and maxX = 32
        and maxY = 32 and padding = NoGridPadding] 0
    by blast
  have 2: "grid_inv (Remove ?g 1) \<and> grid_inv (snd (Query ?g 0 0 50 50)) \<and> grid_inv (Resize ?g 32 32)"
    using grid_invariant_kept [where g = ?g and e = 1 and minX = 0 and minY = 0 and maxX = 50
        and maxY = 50 and cw = 32 and ch = 32] 1
    by blast
  have 3: "itemCells (snd (InsertFunc ?n 1 0 0 32 32 NoGridPadding (Some (\<lambda>_ _ _ _. False)))) 1 = Some []"
    using grid_invariant_kept [where g = ?n and e = 1 and minX = 0 and minY = 0 and maxX = 32
        and maxY = 32 and padding = NoGridPadding and f = "\<lambda>_ _ _ _. False"] 0
    by blast
  show ?thesis using 0 1 2 3 by blast
qed

subsection \<open>C9: Resize\<close>

text \<open>
  C9: in package \<open>hash\<close>, \<open>Resize\<close> with the current cell width and height returns
  the grid unchanged; with a different width or height it empties the buckets, the
  stamp map and the reverse index, resets the generation counter and adopts the new
  size, so that \<open>Contains\<close> is false for every entry.
\<close>

theorem Resize_same_size_or_cleared:
  "(cellWidth g = cw \<and> cellHeight g = ch \<longrightarrow> Resize g cw ch = g)
   \<and> (cellWidth g \<noteq> cw \<or> cellHeight g \<noteq> ch \<longrightarrow>
        cellWidth (Resize g cw ch) = cw \<and> cellHeight (Resize g cw ch) = ch
        \<and> cells (Resize g cw ch) = Map.empty \<and> items (Resize g cw ch) = Map.empty
        \<and> itemCells (Resize g cw ch) = Map.empty \<and> gen (Resize g cw ch) = 0
        \<and> (\<forall>e. \<not> Contains (Resize g cw ch) e))"
  by (auto simp add: Resize_def Clear_def Contains_def)

theorem Resize_same_size_or_cleared_witness:
  "Resize (snd (Insert (NewGrid 64 64) (1::int) 0 0 32 32 NoGridPadding)) 64 64
     = snd (Insert (NewGrid 64 64) (1::int) 0 0 32 32 NoGridPadding)
   \<and> Contains (snd (Insert (NewGrid 64 64) (1::int) 0 0 32 32 NoGridPadding)) 1
   \<and> cellWidth (snd (Insert (NewGrid 64 64) (1::int) 0 0 32 32 NoGridPadding)) \<noteq> 32
   \<and> \<not> Contains (Resize (snd (Insert (NewGrid 64 64) (1::int) 0 0 32 32 NoGridPadding)) 32 32) 1
   \<and> cellWidth (Resize (snd (Insert (NewGrid 64 64) (1::int) 0 0 32 32 NoGridPadding)) 32 32) = 32
   \<and> cells (Resize (snd (Insert (NewGrid 64 64) (1::int) 0 0 32 32 NoGridPadding)) 32 32) = Map.empty"
proof -
  let ?g = "snd (Insert (NewGrid 64 64) (1::int) 0 0 32 32 NoGridPadding)"
  have s: "cellWidth ?g = 64" "cellHeight ?g = 64" "Contains ?g 1"
    by (simp_all add: Insert_example Contains_def)
  have 1: "Resize ?g 64 64 = ?g"
    using Resize_same_size_or_cleared [where g = ?g and cw = 64 and ch = 64] s by blast
  have d: "cellWidth ?g \<noteq> 32" by (simp add: s)
  have 2: "\<not> Contains (Resize ?g 32 32) 1 \<and> cellWidth (Resize ?g 32 32) = 32
      \<and> cells (Resize ?g 32 32) = Map.empty"
    using Resize_same_size_or_cleared [where g = ?g and cw = 32 and ch = 32] d by blast
  show ?thesis using s(3) d 1 2 by blast
qed

subsection \<open>C10: what Query changes\<close>

text \<open>
  C10: in package \<open>hash\<close> (and in \<open>src/unnamed/part_002\<close>, whose \<open>Query\<close> is the same
  loop), \<open>Query\<close> leaves the buckets, the reverse index and the cell size as they
  were. It increments the generation counter, sets the result buffer to the list it
  returns, and every stamp either keeps its value or becomes the new generation.
\<close>

theorem Query_changes_stamps_only:
  "cells (snd (Query g minX minY maxX maxY)) = cells g
   \<and> itemCells (snd (Query g minX minY maxX maxY)) = itemCells g
   \<and> cellWidth (snd (Query g minX minY maxX maxY)) = cellWidth g
   \<and> cellHeight (snd (Query g minX minY maxX maxY)) = cellHeight g
   \<and> gen (snd (Query g minX minY maxX maxY)) = gen g + 1
   \<and> qBuf (snd (Query g minX minY maxX maxY)) = fst (Query g minX minY maxX maxY)
   \<and> (\<forall>e. items (snd (Query g minX minY maxX maxY)) e = items g e
          \<or> items (snd (Query g minX minY maxX maxY)) e = Some (gen g + 1))"
proof -
  have "items (snd (Query g minX minY maxX maxY)) e = items g e
      \<or> items (snd (Query g minX minY maxX maxY)) e = Some (gen g + 1)" for e
  proof (cases "items (snd (Query g minX minY maxX maxY)) e")
    case None
    have "e \<notin> dom (items (snd (Query g minX minY maxX maxY)))" using None by auto
    then have "e \<notin> dom (items g)" unfolding Query_result(3) by blast
    then have "items g e = None" by auto
    then show ?thesis using None by simp
  next
    case (Some s)
    then show ?thesis using Query_stamps [OF Some] by auto
  qed
  then show ?thesis by (simp add: Query_frame)
qed

subsection \<open>Concrete grids of package hashgrid and of part_000\<close>

lemma trunc32_values:
  "trunc32 (Finite 0) = 0" "trunc32 (Finite (1 / 2)) = 0" "trunc32 (Finite (25 / 32)) = 0"
  "trunc32 (Finite 1) = 1" "trunc32 (Finite 2) = 2"
  by (simp_all add: trunc32_def int32_of_def)

lemma hashgrid_New_64:
  "hashgrid_New 64 = Inr \<lparr>hashgrid_left = 0, hashgrid_right = 0, hashgrid_top = 0,
      hashgrid_bottom = 0, hashgrid_cellSize = 64, hashgrid_cells = Map.empty\<rparr>"
  by (simp add: hashgrid_New_def NewWithPadding_def NoPadding_def)

lemma hashgrid_range_small:
  "hashgrid_GetKeys_range \<lparr>entry_Min = \<lambda>_. (0, 0), entry_Max = \<lambda>_. (32, 32)\<rparr>
     \<lparr>hashgrid_left = 0, hashgrid_right = 0, hashgrid_top = 0, hashgrid_bottom = 0,
      hashgrid_cellSize = 64, hashgrid_cells = cs\<rparr> e = (0, 0, - 1, - 1)"
  by (simp add: hashgrid_GetKeys_range_def trunc32_values fdiv_values)

lemma hashgrid_range_first:
  "hashgrid_GetKeys_range \<lparr>entry_Min = \<lambda>_. (0, 0), entry_Max = \<lambda>_. (64, 64)\<rparr>
     \<lparr>hashgrid_left = 0, hashgrid_right = 0, hashgrid_top = 0, hashgrid_bottom = 0,
      hashgrid_cellSize = 64, hashgrid_cells = cs\<rparr> e = (0, 0, 0, 0)"
  by (simp add: hashgrid_GetKeys_range_def trunc32_values fdiv_values)

lemma hashgrid_range_moved:
  "hashgrid_GetKeys_range \<lparr>entry_Min = \<lambda>_. (64, 64), entry_Max = \<lambda>_. (128, 128)\<rparr>
     \<lparr>hashgrid_left = 0, hashgrid_right = 0, hashgrid_top = 0, hashgrid_bottom = 0,
      hashgrid_cellSize = 64, hashgrid_cells = cs\<rparr> e = (1, 1, 1, 1)"
  by (simp add: hashgrid_GetKeys_range_def trunc32_values fdiv_values)

lemma hashgrid_keys_small:
  "hashgrid_GetKeys \<lparr>entry_Min = \<lambda>_. (0, 0), entry_Max = \<lambda>_. (32, 32)\<rparr>
     \<lparr>hashgrid_left = 0, hashgrid_right = 0, hashgrid_top = 0, hashgrid_bottom = 0,
      hashgrid_cellSize = 64, hashgrid_cells = cs\<rparr> e = Some []"
  unfolding hashgrid_GetKeys_def hashgrid_range_small
  by (simp add: for32_incl.simps word_sle_eq)

lemma hashgrid_keys_first:
  "hashgrid_GetKeys \<lparr>entry_Min = \<lambda>_. (0, 0), entry_Max = \<lambda>_. (64, 64)\<rparr>
     \<lparr>hashgrid_left = 0, hashgrid_right = 0, hashgrid_top = 0, hashgrid_bottom = 0,
      hashgrid_cellSize = 64, hashgrid_cells = cs\<rparr> e = Some [EncodeGridKey 0 0]"
  unfolding hashgrid_GetKeys_def hashgrid_range_first
  by (simp add: for32_incl.simps word_sle_eq)

lemma hashgrid_keys_moved:
  "hashgrid_GetKeys \<lparr>entry_Min = \<lambda>_. (64, 64), entry_Max = \<lambda>_. (128, 128)\<rparr>
     \<lparr>hashgrid_left = 0, hashgrid_right = 0, hashgrid_top = 0, hashgrid_bottom = 0,
      hashgrid_cellSize = 64, hashgrid_cells = cs\<rparr> e = Some [EncodeGridKey 1 1]"
  unfolding hashgrid_GetKeys_def hashgrid_range_moved
  by (simp add: for32_incl.simps word_sle_eq)

text \<open>
  The first example of the spec on \<open>src/hashgrid/grid.go\<close>: the box \<open>[0,0,32,32]\<close> gets
  no key, \<open>Insert\<close> stores nothing and the query finds nothing.
\<close>

lemma hashgrid_example_misses:
  "hashgrid_Insert \<lparr>entry_Min = \<lambda>_. (0, 0), entry_Max = \<lambda>_. (32, 32)\<rparr>
     \<lparr>hashgrid_left = 0, hashgrid_right = 0, hashgrid_top = 0, hashgrid_bottom = 0,
      hashgrid_cellSize = 64, hashgrid_cells = Map.empty\<rparr> (1::int)
   = Some \<lparr>hashgrid_left = 0, hashgrid_right = 0, hashgrid_top = 0, hashgrid_bottom = 0,
      hashgrid_cellSize = 64, hashgrid_cells = Map.empty\<rparr>
   \<and> hashgrid_Query \<lparr>entry_Min = \<lambda>_. (0, 0), entry_Max = \<lambda>_. (32, 32)\<rparr>
     \<lparr>hashgrid_left = 0, hashgrid_right = 0, hashgrid_top = 0, hashgrid_bottom = 0,
      hashgrid_cellSize = 64, hashgrid_cells = (Map.empty :: uint64 \<rightharpoonup> int list)\<rparr> 0 0 50 50
   = Some []"
  by (simp add: hashgrid_Insert_def hashgrid_keys_small hashgrid_Query_def
      hashgrid_Query_range_def trunc32_values fdiv_values for32_incl.simps word_sle_eq bucket_def)

lemma hashgrid_Insert_first:
  "hashgrid_Insert \<lparr>entry_Min = \<lambda>_. (0, 0), entry_Max = \<lambda>_. (64, 64)\<rparr>
     \<lparr>hashgrid_left = 0, hashgrid_right = 0, hashgrid_top = 0, hashgrid_bottom = 0,
      hashgrid_cellSize = 64, hashgrid_cells = Map.empty\<rparr> e
   = Some \<lparr>hashgrid_left = 0, hashgrid_right = 0, hashgrid_top = 0, hashgrid_bottom = 0,
      hashgrid_cellSize = 64, hashgrid_cells = [EncodeGridKey 0 0 \<mapsto> [e]]\<rparr>"
  by (simp add: hashgrid_Insert_def hashgrid_keys_first insert_unique_def bucket_def)

lemma hashgrid_Insert_moved:
  "hashgrid_Insert \<lparr>entry_Min = \<lambda>_. (64, 64), entry_Max = \<lambda>_. (128, 128)\<rparr>
     \<lparr>hashgrid_left = 0, hashgrid_right = 0, hashgrid_top = 0, hashgrid_bottom = 0,
      hashgrid_cellSize = 64, hashgrid_cells = [EncodeGridKey 0 0 \<mapsto> [e]]\<rparr> e
   = Some \<lparr>hashgrid_left = 0, hashgrid_right = 0, hashgrid_top = 0, hashgrid_bottom = 0,
      hashgrid_cellSize = 64,
      hashgrid_cells = [EncodeGridKey 0 0 \<mapsto> [e], EncodeGridKey 1 1 \<mapsto> [e]]\<rparr>"
  by (simp add: hashgrid_Insert_def hashgrid_keys_moved insert_unique_def bucket_def
      EncodeGridKey_inj)

lemma hashgrid_Remove_moved:
  "hashgrid_Remove \<lparr>entry_Min = \<lambda>_. (64, 64), entry_Max = \<lambda>_. (128, 128)\<rparr>
     \<lparr>hashgrid_left = 0, hashgrid_right = 0, hashgrid_top = 0, hashgrid_bottom = 0,
      hashgrid_cellSize = 64, hashgrid_cells = [EncodeGridKey 0 0 \<mapsto> [e]]\<rparr> e
   = Some \<lparr>hashgrid_left = 0, hashgrid_right = 0, hashgrid_top = 0, hashgrid_bottom = 0,
      hashgrid_cellSize = 64, hashgrid_cells = [EncodeGridKey 0 0 \<mapsto> [e]]\<rparr>"
  by (simp add: hashgrid_Remove_def hashgrid_keys_moved remove_first_from_cell_def bucket_def
      EncodeGridKey_inj)

lemma hashgrid_Insert_far:
  "hashgrid_Insert \<lparr>entry_Min = \<lambda>_. (64, 64), entry_Max = \<lambda>_. (128, 128)\<rparr>
     \<lparr>hashgrid_left = 0, hashgrid_right = 0, hashgrid_top = 0, hashgrid_bottom = 0,
      hashgrid_cellSize = 64, hashgrid_cells = Map.empty\<rparr> e
   = Some \<lparr>hashgrid_left = 0, hashgrid_right = 0, hashgrid_top = 0, hashgrid_bottom = 0,
      hashgrid_cellSize = 64, hashgrid_cells = [EncodeGridKey 1 1 \<mapsto> [e]]\<rparr>"
  by (simp add: hashgrid_Insert_def hashgrid_keys_moved insert_unique_def bucket_def)

lemma hashgrid_Query_boundary:
  "hashgrid_Query \<lparr>entry_Min = \<lambda>_. (64, 64), entry_Max = \<lambda>_. (128, 128)\<rparr>
     \<lparr>hashgrid_left = 0, hashgrid_right = 0, hashgrid_top = 0, hashgrid_bottom = 0,
      hashgrid_cellSize = 64, hashgrid_cells = [EncodeGridKey 1 1 \<mapsto> [e]]\<rparr> 0 0 64 64
   = Some [e]"
  by (simp add: hashgrid_Query_def hashgrid_Query_range_def trunc32_values fdiv_values for32_incl.simps
      word_sle_eq bucket_def EncodeGridKey_inj hashgrid_visit_def)

lemma part0_New_64:
  "part0_New 64 = Inr \<lparr>part0_cellSize = 64, part0_cells = Map.empty, part0_cellKeys = Map.empty,
      part0_queryResults = [], part0_queryKeys = [], part0_getKeys = []\<rparr>"
  by (simp add: part0_New_def)

lemma part0_Insert_example:
  "part0_Insert \<lparr>entry_Min = \<lambda>_. (0, 0), entry_Max = \<lambda>_. (32, 32)\<rparr>
     \<lparr>part0_cellSize = 64, part0_cells = Map.empty, part0_cellKeys = Map.empty,
      part0_queryResults = [], part0_queryKeys = [], part0_getKeys = []\<rparr> e
   = (True, \<lparr>part0_cellSize = 64, part0_cells = [EncodeGridKey 0 0 \<mapsto> [e]],
             part0_cellKeys = [e \<mapsto> [EncodeGridKey 0 0]],
             part0_queryResults = [], part0_queryKeys = [], part0_getKeys = [EncodeGridKey 0 0]\<rparr>)"
  by (simp add: part0_Insert_def InsertStrictCheck_def part0_GetKeys_def getKeysInternal_def
      computeCellRange_def floor32_def ceil32_def int32_of_def fdiv_values ceiling_half loop_one_cell cell_checked_def
      append_entry_def bucket_def Let_def)

subsection \<open>C3: removal is complete\<close>

lemma Remove_not_Contains: "\<not> Contains (Remove g e) e"
  by (simp add: Remove_def Contains_def Let_def)

lemma Remove_deletes_singleton:
  assumes "grid_inv g" "set (bucket (cells g) k) = {e}"
  shows "cells (Remove g e) k = None"
proof (cases "cells (Remove g e) k")
  case None
  then show ?thesis .
next
  case (Some es)
  have "bucket (cells (Remove g e)) k = []"
    using assms(2) by (simp add: bucket_Remove [OF assms(1)] filter_empty_conv)
  then have "es = []" using Some by (simp add: bucket_def)
  moreover have "es \<noteq> []"
    using grid_inv_Remove [OF assms(1), of e] Some index_inv_nonempty
    by (fastforce simp add: grid_inv_def)
  ultimately show ?thesis by simp
qed

lemma part0_Remove_unindexed: "part0_cellKeys (part0_Remove g e) e = None"
  by (simp add: part0_Remove_def split: option.splits)

lemma part0_Remove_deletes_singleton:
  assumes "part0_inv g" "set (bucket (part0_cells g) k) = {e}"
  shows "part0_cells (part0_Remove g e) k = None"
proof (cases "part0_cells (part0_Remove g e) k")
  case None
  then show ?thesis .
next
  case (Some es)
  have "bucket (part0_cells (part0_Remove g e)) k = []"
    using assms(2) by (simp add: bucket_part0_Remove [OF assms(1)] filter_empty_conv)
  then have "es = []" using Some by (simp add: bucket_def)
  moreover have "es \<noteq> []"
    using part0_inv_Remove [OF assms(1), of e] Some index_inv_nonempty
    by (fastforce simp add: part0_inv_def)
  ultimately show ?thesis by simp
qed

text \<open>
  C3: in package \<open>hash\<close> and in \<open>src/unnamed/part_000\<close>, for a grid that satisfies
  its invariant (as every grid built by the operations does: \<open>reachable_grid_inv\<close>,
  \<open>part0_reachable_inv\<close>) and any entry \<open>e\<close>: after \<open>Remove\<close> of \<open>e\<close> the entry is no
  longer contained (it has no record in the reverse index), it is in no bucket, and
  every bucket whose only entry was \<open>e\<close> is gone from the map of occupied cell keys.
\<close>

theorem Remove_is_complete:
  "(grid_inv g \<longrightarrow>
      \<not> Contains (Remove g e) e
      \<and> itemCells (Remove g e) e = None
      \<and> (\<forall>k. e \<notin> set (bucket (cells (Remove g e)) k))
      \<and> (\<forall>k. set (bucket (cells g) k) = {e} \<longrightarrow> k \<notin> dom (cells (Remove g e))))
   \<and> (part0_inv p \<longrightarrow>
      part0_cellKeys (part0_Remove p e) e = None
      \<and> (\<forall>k. e \<notin> set (bucket (part0_cells (part0_Remove p e)) k))
      \<and> (\<forall>k. set (bucket (part0_cells p) k) = {e} \<longrightarrow> k \<notin> dom (part0_cells (part0_Remove p e))))"
proof (intro conjI impI allI)
  show "\<not> Contains (Remove g e) e" by (rule Remove_not_Contains)
next
  assume inv: "grid_inv g"
  have "e \<notin> dom (items (Remove g e))" using Remove_not_Contains [of g e] by (auto simp add: Contains_def)
  then have "e \<notin> dom (itemCells (Remove g e))"
    using grid_inv_Remove [OF inv, of e] by (simp add: grid_inv_def)
  then show "itemCells (Remove g e) e = None" by auto
next
  fix k assume "grid_inv g"
  then show "e \<notin> set (bucket (cells (Remove g e)) k)" by (simp add: bucket_Remove)
next
  fix k assume "grid_inv g" "set (bucket (cells g) k) = {e}"
  then show "k \<notin> dom (cells (Remove g e))" using Remove_deletes_singleton by fastforce
next
  show "part0_cellKeys (part0_Remove p e) e = None" by (rule part0_Remove_unindexed)
next
  fix k assume "part0_inv p"
  then show "e \<notin> set (bucket (part0_cells (part0_Remove p e)) k)" by (simp add: bucket_part0_Remove)
next
  fix k assume "part0_inv p" "set (bucket (part0_cells p) k) = {e}"
  then show "k \<notin> dom (part0_cells (part0_Remove p e))"
    using part0_Remove_deletes_singleton by fastforce
qed

theorem Remove_is_complete_witness:
  "grid_inv (snd (Insert (NewGrid 64 64) (1::int) 0 0 32 32 NoGridPadding))
   \<and> Contains (snd (Insert (NewGrid 64 64) (1::int) 0 0 32 32 NoGridPadding)) 1
   \<and> set (bucket (cells (snd (Insert (NewGrid 64 64) (1::int) 0 0 32 32 NoGridPadding)))
             (EncodeGridKey 0 0)) = {1}
   \<and> \<not> Contains (Remove (snd (Insert (NewGrid 64 64) (1::int) 0 0 32 32 NoGridPadding)) 1) 1
   \<and> EncodeGridKey 0 0
       \<notin> dom (cells (Remove (snd (Insert (NewGrid 64 64) (1::int) 0 0 32 32 NoGridPadding)) 1))
   \<and> part0_inv (snd (part0_Insert \<lparr>entry_Min = \<lambda>_. (0, 0), entry_Max = \<lambda>_. (32, 32)\<rparr>
        \<lparr>part0_cellSize = 64, part0_cells = Map.empty, part0_cellKeys = Map.empty,
         part0_queryResults = [], part0_queryKeys = [], part0_getKeys = []\<rparr> (1::int)))
   \<and> set (bucket (part0_cells (snd (part0_Insert \<lparr>entry_Min = \<lambda>_. (0, 0), entry_Max = \<lambda>_. (32, 32)\<rparr>
        \<lparr>part0_cellSize = 64, part0_cells = Map.empty, part0_cellKeys = Map.empty,
         part0_queryResults = [], part0_queryKeys = [], part0_getKeys = []\<rparr> (1::int))))
         (EncodeGridKey 0 0)) = {1}
   \<and> EncodeGridKey 0 0
       \<notin> dom (part0_cells (part0_Remove (snd (part0_Insert
            \<lparr>entry_Min = \<lambda>_. (0, 0), entry_Max = \<lambda>_. (32, 32)\<rparr>
            \<lparr>part0_cellSize = 64, part0_cells = Map.empty, part0_cellKeys = Map.empty,
             part0_queryResults = [], part0_queryKeys = [], part0_getKeys = []\<rparr> (1::int))) 1))"
proof -
  let ?g = "snd (Insert (NewGrid 64 64) (1::int) 0 0 32 32 NoGridPadding)"
  let ?m = "\<lparr>entry_Min = \<lambda>_::int. (0::real, 0::real), entry_Max = \<lambda>_. (32, 32)\<rparr>"
  let ?e = "\<lparr>part0_cellSize = 64, part0_cells = Map.empty, part0_cellKeys = Map.empty,
         part0_queryResults = [], part0_queryKeys = [], part0_getKeys = []\<rparr> :: int part0_Grid"
  let ?p = "snd (part0_Insert ?m ?e 1)"
  have 1: "grid_inv ?g"
    unfolding Insert_def by (rule grid_inv_insert_grid) (rule grid_inv_NewGrid)
  have 2: "Contains ?g 1" "set (bucket (cells ?g) (EncodeGridKey 0 0)) = {1}"
    by (simp_all add: Insert_example Contains_def bucket_def)
  have e: "part0_inv ?e" by (simp add: part0_inv_def index_inv_empty)
  have 3: "part0_inv ?p"
    unfolding part0_Insert_def by (rule part0_inv_InsertStrictCheck) (rule e)
  have 4: "set (bucket (part0_cells ?p) (EncodeGridKey 0 0)) = {1}"
    by (simp add: part0_Insert_example bucket_def)
  have 5: "\<not> Contains (Remove ?g 1) 1 \<and> EncodeGridKey 0 0 \<notin> dom (cells (Remove ?g 1))
      \<and> EncodeGridKey 0 0 \<notin> dom (part0_cells (part0_Remove ?p 1))"
    using Remove_is_complete [where g = ?g and e = 1 and p = ?p] 1 2 3 4 by blast
  show ?thesis using 1 2 3 4 5 by blast
qed

subsection \<open>C7: how Remove finds the buckets\<close>

text \<open>
  The claim as stated fails in \<open>src/hashgrid/grid.go\<close> (and in \<open>src/unnamed/part_001\<close>,
  which has the same \<open>Remove\<close>): there is no reverse index, \<open>Remove\<close> recomputes the keys
  from the box the entry has now. An entry inserted with box \<open>[0,0,64,64]\<close> and moved
  to \<open>[64,64,128,128]\<close> stays in the bucket of cell \<open>(0,0)\<close> after \<open>Remove\<close>.
\<close>

theorem hashgrid_Remove_misses_moved_entry:
  "hashgrid_Insert \<lparr>entry_Min = \<lambda>_. (0, 0), entry_Max = \<lambda>_. (64, 64)\<rparr>
     \<lparr>hashgrid_left = 0, hashgrid_right = 0, hashgrid_top = 0, hashgrid_bottom = 0,
      hashgrid_cellSize = 64, hashgrid_cells = Map.empty\<rparr> (1::int)
   = Some \<lparr>hashgrid_left = 0, hashgrid_right = 0, hashgrid_top = 0, hashgrid_bottom = 0,
      hashgrid_cellSize = 64, hashgrid_cells = [EncodeGridKey 0 0 \<mapsto> [1]]\<rparr>
   \<and> hashgrid_Remove \<lparr>entry_Min = \<lambda>_. (64, 64), entry_Max = \<lambda>_. (128, 128)\<rparr>
     \<lparr>hashgrid_left = 0, hashgrid_right = 0, hashgrid_top = 0, hashgrid_bottom = 0,
      hashgrid_cellSize = 64, hashgrid_cells = [EncodeGridKey 0 0 \<mapsto> [1]]\<rparr> (1::int)
   = Some \<lparr>hashgrid_left = 0, hashgrid_right = 0, hashgrid_top = 0, hashgrid_bottom = 0,
      hashgrid_cellSize = 64, hashgrid_cells = [EncodeGridKey 0 0 \<mapsto> [1]]\<rparr>"
  by (simp add: hashgrid_Insert_first hashgrid_Remove_moved)

lemma Remove_cells:
  assumes "Contains g e" "itemCells g e = Some K"
  shows "cells (Remove g e) =
     (\<lambda>k. if k \<in> set K
          then (if filter (\<lambda>x. x \<noteq> e) (bucket (cells g) k) = [] then None
                else Some (filter (\<lambda>x. x \<noteq> e) (bucket (cells g) k)))
          else cells g k)"
  by (simp add: Remove_present [OF assms(2,1)] fold_remove_from_cell)

lemma part0_Remove_cells:
  assumes "part0_inv p" "part0_cellKeys p e = Some K"
  shows "part0_cells (part0_Remove p e) =
     (\<lambda>k. if k \<in> set K
          then (if filter (\<lambda>x. x \<noteq> e) (bucket (part0_cells p) k) = [] then None
                else Some (filter (\<lambda>x. x \<noteq> e) (bucket (part0_cells p) k)))
          else part0_cells p k)"
  by (simp add: part0_Remove_present [OF assms] fold_remove_from_cell)

text \<open>
  C7, amended: in the variants with a reverse index (package \<open>hash\<close> and
  \<open>src/unnamed/part_000\<close>) \<open>Remove\<close> takes the entry only, never its box. For a
  present entry with recorded key list \<open>K\<close> the buckets after \<open>Remove\<close> are: for a key
  of \<open>K\<close>, the old bucket without the elements equal to the entry, deleted when
  nothing is left; for every other key, the old bucket. On a grid that satisfies its
  invariant the entry is then in no bucket at all, whatever its box is now.
\<close>

theorem Remove_uses_recorded_keys:
  "(Contains g e \<and> itemCells g e = Some K \<longrightarrow>
      cells (Remove g e) =
        (\<lambda>k. if k \<in> set K
             then (if filter (\<lambda>x. x \<noteq> e) (bucket (cells g) k) = [] then None
                   else Some (filter (\<lambda>x. x \<noteq> e) (bucket (cells g) k)))
             else cells g k))
   \<and> (grid_inv g \<longrightarrow> (\<forall>k. e \<notin> set (bucket (cells (Remove g e)) k)))
   \<and> (part0_inv p \<and> part0_cellKeys p e = Some K' \<longrightarrow>
      part0_cells (part0_Remove p e) =
        (\<lambda>k. if k \<in> set K'
             then (if filter (\<lambda>x. x \<noteq> e) (bucket (part0_cells p) k) = [] then None
                   else Some (filter (\<lambda>x. x \<noteq> e) (bucket (part0_cells p) k)))
             else part0_cells p k))
   \<and> (part0_inv p \<longrightarrow> (\<forall>k. e \<notin> set (bucket (part0_cells (part0_Remove p e)) k)))"
proof (intro conjI impI allI)
  assume "Contains g e \<and> itemCells g e = Some K"
  then show "cells (Remove g e) =
        (\<lambda>k. if k \<in> set K
             then (if filter (\<lambda>x. x \<noteq> e) (bucket (cells g) k) = [] then None
                   else Some (filter (\<lambda>x. x \<noteq> e) (bucket (cells g) k)))
             else cells g k)"
    by (intro Remove_cells) simp_all
next
  fix k assume "grid_inv g"
  then show "e \<notin> set (bucket (cells (Remove g e)) k)" by (simp add: bucket_Remove)
next
  assume "part0_inv p \<and> part0_cellKeys p e = Some K'"
  then show "part0_cells (part0_Remove p e) =
        (\<lambda>k. if k \<in> set K'
             then (if filter (\<lambda>x. x \<noteq> e) (bucket (part0_cells p) k) = [] then None
                   else Some (filter (\<lambda>x. x \<noteq> e) (bucket (part0_cells p) k)))
             else part0_cells p k)"
    by (intro part0_Remove_cells) simp_all
next
  fix k assume "part0_inv p"
  then show "e \<notin> set (bucket (part0_cells (part0_Remove p e)) k)" by (simp add: bucket_part0_Remove)
qed

theorem Remove_uses_recorded_keys_witness:
  "Contains (snd (Insert (NewGrid 64 64) (1::int) 0 0 32 32 NoGridPadding)) 1
   \<and> itemCells (snd (Insert (NewGrid 64 64) (1::int) 0 0 32 32 NoGridPadding)) 1
       = Some [EncodeGridKey 0 0]
   \<and> grid_inv (snd (Insert (NewGrid 64 64) (1::int) 0 0 32 32 NoGridPadding))
   \<and> cells (Remove (snd (Insert (NewGrid 64 64) (1::int) 0 0 32 32 NoGridPadding)) 1)
        (EncodeGridKey 0 0) = None
   \<and> 1 \<notin> set (bucket (cells (Remove (snd (Insert (NewGrid 64 64) (1::int) 0 0 32 32 NoGridPadding)) 1))
                  (EncodeGridKey 0 0))
   \<and> part0_inv (snd (part0_Insert \<lparr>entry_Min = \<lambda>_. (0, 0), entry_Max = \<lambda>_. (32, 32)\<rparr>
        \<lparr>part0_cellSize = 64, part0_cells = Map.empty, part0_cellKeys = Map.empty,
         part0_queryResults = [], part0_queryKeys = [], part0_getKeys = []\<rparr> (1::int)))
   \<and> part0_cells (part0_Remove (snd (part0_Insert
            \<lparr>entry_Min = \<lambda>_. (0, 0), entry_Max = \<lambda>_. (32, 32)\<rparr>
            \<lparr>part0_cellSize = 64, part0_cells = Map.empty, part0_cellKeys = Map.empty,
             part0_queryResults = [], part0_queryKeys = [], part0_getKeys = []\<rparr> (1::int))) 1)
        (EncodeGridKey 0 0) = None"
proof -
  let ?g = "snd (Insert (NewGrid 64 64) (1::int) 0 0 32 32 NoGridPadding)"
  let ?m = "\<lparr>entry_Min = \<lambda>_::int. (0::real, 0::real), entry_Max = \<lambda>_. (32, 32)\<rparr>"
  let ?e = "\<lparr>part0_cellSize = 64, part0_cells = Map.empty, part0_cellKeys = Map.empty,
         part0_queryResults = [], part0_queryKeys = [], part0_getKeys = []\<rparr> :: int part0_Grid"
  let ?p = "snd (part0_Insert ?m ?e 1)"
  have 1: "grid_inv ?g"
    unfolding Insert_def by (rule grid_inv_insert_grid) (rule grid_inv_NewGrid)
  have 2: "Contains ?g 1" "itemCells ?g 1 = Some [EncodeGridKey 0 0]"
    "bucket (cells ?g) (EncodeGridKey 0 0) = [1]"
    by (simp_all add: Insert_example Contains_def bucket_def)
  have e: "part0_inv ?e" by (simp add: part0_inv_def index_inv_empty)
  have 3: "part0_inv ?p"
    unfolding part0_Insert_def by (rule part0_inv_InsertStrictCheck) (rule e)
  have 4: "part0_cellKeys ?p 1 = Some [EncodeGridKey 0 0]"
    "bucket (part0_cells ?p) (EncodeGridKey 0 0) = [1]"
    by (simp_all add: part0_Insert_example bucket_def)
  note t = Remove_uses_recorded_keys
    [where g = ?g and e = 1 and K = "[EncodeGridKey 0 0]" and p = ?p and K' = "[EncodeGridKey 0 0]"]
  have 5: "cells (Remove ?g 1) (EncodeGridKey 0 0) = None"
  proof -
    have "cells (Remove ?g 1) =
        (\<lambda>k. if k \<in> set [EncodeGridKey 0 0]
             then (if filter (\<lambda>x. x \<noteq> 1) (bucket (cells ?g) k) = [] then None
                   else Some (filter (\<lambda>x. x \<noteq> 1) (bucket (cells ?g) k)))
             else cells ?g k)"
      using t 2(1,2) by blast
    then show ?thesis by (simp add: 2(3))
  qed
  have 6: "1 \<notin> set (bucket (cells (Remove ?g 1)) (EncodeGridKey 0 0))"
    using t 1 by blast
  have 7: "part0_cells (part0_Remove ?p 1) (EncodeGridKey 0 0) = None"
  proof -
    have "part0_cells (part0_Remove ?p 1) =
        (\<lambda>k. if k \<in> set [EncodeGridKey 0 0]
             then (if filter (\<lambda>x. x \<noteq> 1) (bucket (part0_cells ?p) k) = [] then None
                   else Some (filter (\<lambda>x. x \<noteq> 1) (bucket (part0_cells ?p) k)))
             else part0_cells ?p k)"
      using t 3 4(1) by blast
    then show ?thesis by (simp add: 4(2))
  qed
  show ?thesis using 1 2(1,2) 3 5 6 7 by blast
qed

subsection \<open>C4: inserting an entry that is present\<close>

lemma insert_grid_present: "Contains g e \<Longrightarrow> insert_grid g e minX minY maxX maxY padding fn = (False, g)"
  by (simp add: insert_grid_def)

lemma Contains_insert_grid: "Contains (snd (insert_grid g e minX minY maxX maxY padding fn)) e"
proof (cases "Contains g e")
  case True
  then show ?thesis by (simp add: insert_grid_present)
next
  case False
  show ?thesis by (simp add: insert_grid_absent [OF False] Contains_def)
qed

lemma indexed_InsertStrictCheck: "part0_cellKeys (snd (InsertStrictCheck m p e check)) e \<noteq> None"
proof (cases "part0_cellKeys p e")
  case None
  show ?thesis by (simp add: InsertStrictCheck_absent [OF None])
next
  case (Some K)
  then show ?thesis by (simp add: InsertStrictCheck_present)
qed

text \<open>
  The claim as stated fails in \<open>src/hashgrid/grid.go\<close>: \<open>Insert\<close> returns nothing and
  keeps no reverse index; it skips the buckets that hold the entry already. When the
  entry is present and its box has moved from \<open>[0,0,64,64]\<close> to \<open>[64,64,128,128]\<close>, a
  second \<open>Insert\<close> adds it to the bucket of cell \<open>(1,1)\<close>: the state changes.
\<close>

theorem hashgrid_Insert_of_present_entry_changes_state:
  "hashgrid_Insert \<lparr>entry_Min = \<lambda>_. (0, 0), entry_Max = \<lambda>_. (64, 64)\<rparr>
     \<lparr>hashgrid_left = 0, hashgrid_right = 0, hashgrid_top = 0, hashgrid_bottom = 0,
      hashgrid_cellSize = 64, hashgrid_cells = Map.empty\<rparr> (1::int)
   = Some \<lparr>hashgrid_left = 0, hashgrid_right = 0, hashgrid_top = 0, hashgrid_bottom = 0,
      hashgrid_cellSize = 64, hashgrid_cells = [EncodeGridKey 0 0 \<mapsto> [1]]\<rparr>
   \<and> hashgrid_Insert \<lparr>entry_Min = \<lambda>_. (64, 64), entry_Max = \<lambda>_. (128, 128)\<rparr>
     \<lparr>hashgrid_left = 0, hashgrid_right = 0, hashgrid_top = 0, hashgrid_bottom = 0,
      hashgrid_cellSize = 64, hashgrid_cells = [EncodeGridKey 0 0 \<mapsto> [1]]\<rparr> (1::int)
   = Some \<lparr>hashgrid_left = 0, hashgrid_right = 0, hashgrid_top = 0, hashgrid_bottom = 0,
      hashgrid_cellSize = 64,
      hashgrid_cells = [EncodeGridKey 0 0 \<mapsto> [1], EncodeGridKey 1 1 \<mapsto> [1]]\<rparr>
   \<and> [EncodeGridKey 0 0 \<mapsto> [1::int], EncodeGridKey 1 1 \<mapsto> [1]] (EncodeGridKey 1 1)
       \<noteq> [EncodeGridKey 0 0 \<mapsto> [1::int]] (EncodeGridKey 1 1)"
  by (simp add: hashgrid_Insert_first hashgrid_Insert_moved EncodeGridKey_inj)

text \<open>
  C4, amended: in package \<open>hash\<close> (\<open>insert\<close>, behind \<open>Insert\<close> and \<open>InsertFunc\<close>)
  and in \<open>src/unnamed/part_000\<close> (\<open>InsertStrictCheck\<close>, behind \<open>Insert\<close>), inserting
  an entry whose identity is present returns false and leaves the whole grid
  unchanged; so after any insertion of \<open>e\<close>, a second insertion of \<open>e\<close>, with any box,
  padding and predicate, returns false and the state of the first. In
  \<open>src/hashgrid/grid.go\<close>, where \<open>Insert\<close> returns no value, a second \<open>Insert\<close> of
  the entry with the same box leaves the state of the first; and \<open>Insert\<close> returns
  when the end cells of the entry's range are below the largest \<open>int32\<close>.
\<close>

theorem insert_of_present_entry_is_noop:
  "(Contains g e \<longrightarrow> insert_grid g e minX minY maxX maxY padding fn = (False, g))
   \<and> insert_grid (snd (insert_grid g e minX minY maxX maxY padding fn)) e
        minX' minY' maxX' maxY' padding' fn'
       = (False, snd (insert_grid g e minX minY maxX maxY padding fn))
   \<and> (part0_cellKeys p e \<noteq> None \<longrightarrow> InsertStrictCheck m p e check = (False, p))
   \<and> InsertStrictCheck m' (snd (InsertStrictCheck m p e check)) e check'
       = (False, snd (InsertStrictCheck m p e check))
   \<and> (hashgrid_Insert m h e = Some h' \<longrightarrow> hashgrid_Insert m h' e = Some h')
   \<and> (hashgrid_GetKeys_range m h e = (startX, startY, endX, endY)
        \<and> sint endX < 2 ^ 31 - 1 \<and> sint endY < 2 ^ 31 - 1
      \<longrightarrow> hashgrid_Insert m h e \<noteq> None)"
proof (intro conjI impI)
  assume "Contains g e"
  then show "insert_grid g e minX minY maxX maxY padding fn = (False, g)"
    by (rule insert_grid_present)
next
  show "insert_grid (snd (insert_grid g e minX minY maxX maxY padding fn)) e
        minX' minY' maxX' maxY' padding' fn'
       = (False, snd (insert_grid g e minX minY maxX maxY padding fn))"
    by (rule insert_grid_present) (rule Contains_insert_grid)
next
  assume "part0_cellKeys p e \<noteq> None"
  then show "InsertStrictCheck m p e check = (False, p)" by (rule InsertStrictCheck_present)
next
  show "InsertStrictCheck m' (snd (InsertStrictCheck m p e check)) e check'
       = (False, snd (InsertStrictCheck m p e check))"
    by (rule InsertStrictCheck_present) (rule indexed_InsertStrictCheck)
next
  assume "hashgrid_Insert m h e = Some h'"
  then show "hashgrid_Insert m h' e = Some h'" by (rule hashgrid_Insert_idem)
next
  assume "hashgrid_GetKeys_range m h e = (startX, startY, endX, endY)
        \<and> sint endX < 2 ^ 31 - 1 \<and> sint endY < 2 ^ 31 - 1"
  then show "hashgrid_Insert m h e \<noteq> None"
    by (intro hashgrid_Insert_returns [where endX = endX and endY = endY]) simp_all
qed

theorem insert_of_present_entry_is_noop_witness:
  "Contains (snd (Insert (NewGrid 64 64) (1::int) 0 0 32 32 NoGridPadding)) 1
   \<and> insert_grid (snd (Insert (NewGrid 64 64) (1::int) 0 0 32 32 NoGridPadding)) 1
        64 64 128 128 GridCellPadding None
       = (False, snd (Insert (NewGrid 64 64) (1::int) 0 0 32 32 NoGridPadding))
   \<and> part0_cellKeys (snd (part0_Insert \<lparr>entry_Min = \<lambda>_. (0, 0), entry_Max = \<lambda>_. (32, 32)\<rparr>
        \<lparr>part0_cellSize = 64, part0_cells = Map.empty, part0_cellKeys = Map.empty,
         part0_queryResults = [], part0_queryKeys = [], part0_getKeys = []\<rparr> (1::int))) 1 \<noteq> None
   \<and> InsertStrictCheck \<lparr>entry_Min = \<lambda>_. (0, 0), entry_Max = \<lambda>_. (64, 64)\<rparr>
        (snd (part0_Insert \<lparr>entry_Min = \<lambda>_. (0, 0), entry_Max = \<lambda>_. (32, 32)\<rparr>
        \<lparr>part0_cellSize = 64, part0_cells = Map.empty, part0_cellKeys = Map.empty,
         part0_queryResults = [], part0_queryKeys = [], part0_getKeys = []\<rparr> (1::int))) 1 None
       = (False, snd (part0_Insert \<lparr>entry_Min = \<lambda>_. (0, 0), entry_Max = \<lambda>_. (32, 32)\<rparr>
        \<lparr>part0_cellSize = 64, part0_cells = Map.empty, part0_cellKeys = Map.empty,
         part0_queryResults = [], part0_queryKeys = [], part0_getKeys = []\<rparr> (1::int)))
   \<and> hashgrid_Insert \<lparr>entry_Min = \<lambda>_. (0, 0), entry_Max = \<lambda>_. (64, 64)\<rparr>
        \<lparr>hashgrid_left = 0, hashgrid_right = 0, hashgrid_top = 0, hashgrid_bottom = 0,
         hashgrid_cellSize = 64, hashgrid_cells = [EncodeGridKey 0 0 \<mapsto> [1::int]]\<rparr> 1
       = Some \<lparr>hashgrid_left = 0, hashgrid_right = 0, hashgrid_top = 0, hashgrid_bottom = 0,
         hashgrid_cellSize = 64, hashgrid_cells = [EncodeGridKey 0 0 \<mapsto> [1::int]]\<rparr>
   \<and> hashgrid_Insert \<lparr>entry_Min = \<lambda>_. (0, 0), entry_Max = \<lambda>_. (64, 64)\<rparr>
        \<lparr>hashgrid_left = 0, hashgrid_right = 0, hashgrid_top = 0, hashgrid_bottom = 0,
         hashgrid_cellSize = 64, hashgrid_cells = Map.empty\<rparr> (1::int) \<noteq> None"
proof -
  let ?g = "snd (Insert (NewGrid 64 64) (1::int) 0 0 32 32 NoGridPadding)"
  let ?m = "\<lparr>entry_Min = \<lambda>_::int. (0::real, 0::real), entry_Max = \<lambda>_. (32, 32)\<rparr>"
  let ?e = "\<lparr>part0_cellSize = 64, part0_cells = Map.empty, part0_cellKeys = Map.empty,
         part0_queryResults = [], part0_queryKeys = [], part0_getKeys = []\<rparr> :: int part0_Grid"
  let ?p = "snd (part0_Insert ?m ?e 1)"
  let ?b = "\<lparr>entry_Min = \<lambda>_::int. (0::real, 0::real), entry_Max = \<lambda>_. (64, 64)\<rparr>"
  let ?h = "\<lparr>hashgrid_left = 0, hashgrid_right = 0, hashgrid_top = 0, hashgrid_bottom = 0,
         hashgrid_cellSize = 64, hashgrid_cells = Map.empty\<rparr> :: int hashgrid_Grid"
  let ?h' = "\<lparr>hashgrid_left = 0, hashgrid_right = 0, hashgrid_top = 0, hashgrid_bottom = 0,
         hashgrid_cellSize = 64, hashgrid_cells = [EncodeGridKey 0 0 \<mapsto> [1::int]]\<rparr>"
  have 1: "Contains ?g 1" by (simp add: Insert_example Contains_def)
  have 2: "part0_cellKeys ?p 1 \<noteq> None" by (simp add: part0_Insert_example)
  have 3: "hashgrid_Insert ?b ?h 1 = Some ?h'" by (rule hashgrid_Insert_first)
  have 4: "hashgrid_GetKeys_range ?b ?h 1 = (0, 0, 0, 0)" by (rule hashgrid_range_first)
  have 5: "sint (0 :: int32) < 2 ^ 31 - 1" by simp
  note t = insert_of_present_entry_is_noop
      [where g = ?g and e = 1 and minX = 64 and minY = 64 and maxX = 128 and maxY = 128
         and padding = GridCellPadding and fn = None
         and minX' = 0 and minY' = 0 and maxX' = 0 and maxY' = 0
         and padding' = NoGridPadding and fn' = None
         and p = ?p and m = ?b and check = None and m' = ?b and check' = None
         and h = ?h and h' = ?h' and startX = 0 and startY = 0 and endX = 0 and endY = 0]
  have a: "insert_grid ?g 1 64 64 128 128 GridCellPadding None = (False, ?g)"
    using t 1 by blast
  have b: "InsertStrictCheck ?b ?p 1 None = (False, ?p)"
    using t 2 by blast
  have c: "hashgrid_Insert ?b ?h' 1 = Some ?h'"
    using t 3 by blast
  have d: "hashgrid_Insert ?b ?h 1 \<noteq> None"
    using t 4 5 by blast
  show ?thesis using 1 2 a b c d by blast
qed

subsection \<open>C6: the cell range\<close>

lemma QueryCells_filter:
  "QueryCells g minX minY maxX maxY
   = filter (\<lambda>k. cells g k \<noteq> None) (query_keys g minX minY maxX maxY)"
proof -
  obtain a b c d where r: "cellRange g minX minY maxX maxY = (a, b, c, d)"
    using prod_cases4 by blast
  have "fold (\<lambda>p ks. if cells g (EncodeGridKey (fst p) (snd p)) \<noteq> None
                      then ks @ [EncodeGridKey (fst p) (snd p)] else ks) ps acc
      = acc @ filter (\<lambda>k. cells g k \<noteq> None) (map (\<lambda>p. EncodeGridKey (fst p) (snd p)) ps)"
    for ps :: "(int32 \<times> int32) list" and acc
    by (induction ps arbitrary: acc) simp_all
  then show ?thesis
    unfolding QueryCells_def query_keys_def r nested_for32
    by (simp add: case_prod_unfold)
qed

lemma half_open_keys:
  "{EncodeGridKey cx cy | cx cy. cx \<in> set (range32 a c) \<and> cy \<in> set (range32 b d)}
   = {EncodeGridKey cx cy | cx cy. a \<le>s cx \<and> cx <s c \<and> b \<le>s cy \<and> cy <s d}"
  by (simp add: set_range32)

lemma set_part0_claimed_keys:
  assumes "entry_Min m e = (minX, minY)" "entry_Max m e = (maxX, maxY)"
  shows "set (part0_claimed_keys m p e None)
   = (case computeCellRange minX minY maxX maxY (part0_cellSize p) of
        (startX, startY, endX, endY) \<Rightarrow>
          {EncodeGridKey cx cy | cx cy.
             startX \<le>s cx \<and> cx <s endX \<and> startY \<le>s cy \<and> cy <s endY})"
proof -
  have "(\<lambda>p. EncodeGridKey (snd p) (fst p)) ` S = {EncodeGridKey cx cy | cx cy. (cy, cx) \<in> S}" for S
  proof (intro set_eqI iffI)
    fix k
    assume "k \<in> (\<lambda>p. EncodeGridKey (snd p) (fst p)) ` S"
    then obtain q where "q \<in> S" "k = EncodeGridKey (snd q) (fst q)" by auto
    then have "k = EncodeGridKey (snd q) (fst q) \<and> (fst q, snd q) \<in> S" by simp
    then show "k \<in> {EncodeGridKey cx cy | cx cy. (cy, cx) \<in> S}" by blast
  next
    fix k
    assume "k \<in> {EncodeGridKey cx cy | cx cy. (cy, cx) \<in> S}"
    then obtain cx cy where c: "k = EncodeGridKey cx cy" "(cy, cx) \<in> S" by blast
    then have "k = (\<lambda>p. EncodeGridKey (snd p) (fst p)) (cy, cx)" by simp
    then show "k \<in> (\<lambda>p. EncodeGridKey (snd p) (fst p)) ` S" using c(2) by (rule image_eqI)
  qed
  then show ?thesis
    using assms
    by (simp add: part0_claimed_keys_def cell_checked_def mem_loop_cells
        set_range32 conj_commute conj_left_commute split: prod.splits)
qed

text \<open>
  The quotient of the boundary \<open>n * cellWidth\<close> of a column is \<open>n\<close>, which is a
  \<open>float32\<close> when it has at most 24 bits.
\<close>

lemma ceil32_on_boundary:
  assumes "0 < cw" "\<bar>n\<bar> < 2 ^ 24"
  shows "ceil32 (fdiv (real_of_int n * cw) cw) = word_of_int n"
proof -
  have q: "real_of_int n * cw / cw = of_int n" using assms(1) by simp
  have r: "round32 (of_int n) = of_int n" by (rule round32_of_int [OF assms(2)])
  have "(of_int \<bar>n\<bar> :: real) < of_int (2 ^ 24)" using assms(2) by (simp only: of_int_less_iff)
  then have "\<bar>of_int n :: real\<bar> \<le> 2 ^ 24" by simp
  also have "\<dots> \<le> MaxFloat32" by (simp add: MaxFloat32_def)
  finally have "\<bar>round32 (of_int n)\<bar> \<le> MaxFloat32" by (simp only: r)
  then have "fdiv (real_of_int n * cw) cw = Finite (of_int n)"
    using assms(1) fdiv_Finite [of cw "real_of_int n * cw"] by (simp add: q r)
  moreover have "- (2 ^ 31) \<le> n" "n < 2 ^ 31" using assms(2) by simp_all
  ultimately show ?thesis by (simp add: ceil32_def int32_of_def)
qed

text \<open>
  The bounds are the floor and the ceiling of the rounded quotient, not of the exact
  one: with the cell size \<open>1.1\<close>, the \<open>float32\<close> \<open>9227469 / 2^23\<close>, the right edge
  \<open>3460301 / 2^20\<close> has the exact quotient \<open>3 + 1 / 9227469\<close>, whose ceiling is 4, and
  the end column 3 (\<open>cellRange_rounding_example\<close>).
\<close>

lemma exact_quotient_example:
  "\<lceil>(3460301 / 1048576) / (9227469 / 8388608 :: real)\<rceil> = 4"
  by (simp add: ceiling_eq_iff)

text \<open>
  The claim as stated fails for \<open>Query\<close> of \<open>src/hashgrid/grid.go\<close> (and of
  \<open>src/unnamed/part_001\<close>): the bounds are the quotients truncated towards zero and the
  loops include the end cell. The rectangle \<open>[0,0,64,64]\<close>, whose edge lies on the cell
  boundary, scans the cells up to \<open>(1,1)\<close> and returns an entry that is stored in cell
  \<open>(1,1)\<close> only; the rectangle \<open>[-32,-32,-16,-16]\<close> scans cell \<open>(0,0)\<close>, not
  \<open>(-1,-1)\<close>.
\<close>

theorem hashgrid_Query_range_is_truncated_and_inclusive:
  "hashgrid_Query_range \<lparr>hashgrid_left = 0, hashgrid_right = 0, hashgrid_top = 0,
      hashgrid_bottom = 0, hashgrid_cellSize = 64,
      hashgrid_cells = [EncodeGridKey 1 1 \<mapsto> [1::int]]\<rparr> 0 0 64 64 = (0, 0, 1, 1)
   \<and> hashgrid_Query \<lparr>entry_Min = \<lambda>_. (64, 64), entry_Max = \<lambda>_. (128, 128)\<rparr>
     \<lparr>hashgrid_left = 0, hashgrid_right = 0, hashgrid_top = 0, hashgrid_bottom = 0,
      hashgrid_cellSize = 64, hashgrid_cells = [EncodeGridKey 1 1 \<mapsto> [1::int]]\<rparr> 0 0 64 64
     = Some [1]
   \<and> hashgrid_Query_range \<lparr>hashgrid_left = 0, hashgrid_right = 0, hashgrid_top = 0,
      hashgrid_bottom = 0, hashgrid_cellSize = 64,
      hashgrid_cells = [EncodeGridKey 1 1 \<mapsto> [1::int]]\<rparr> (- 32) (- 32) (- 16) (- 16)
     = (0, 0, 0, 0)"
proof -
  have c: "\<lceil>- (1 / 2 :: real)\<rceil> = 0" "\<lceil>- (1 / 4 :: real)\<rceil> = 0"
    by (simp_all add: ceiling_eq_iff)
  show ?thesis
    by (simp add: hashgrid_Query_boundary)
       (simp add: hashgrid_Query_range_def trunc32_def int32_of_def fdiv_values c)
qed

text \<open>
  C6, amended: in package \<open>hash\<close> (\<open>cellRange\<close>) and in \<open>src/unnamed/part_000\<close>
  (\<open>computeCellRange\<close>), for every box and positive cell size whose cell coordinates
  are \<open>int32\<close> values (\<open>box_fits\<close>), the bounds are \<open>startX = floor(qx(minX))\<close>,
  \<open>startY = floor(qy(minY))\<close>, \<open>endX = ceil(qx(maxX))\<close>, \<open>endY = ceil(qy(maxY))\<close>, where
  \<open>qx\<close> and \<open>qy\<close> are the \<open>float32\<close> quotients by the cell width and height, rounded to
  the nearest \<open>float32\<close>. The cells covered are the half-open rectangle
  \<open>[startX, endX) \<times> [startY, endY)\<close> of the bounds computed: the keys recorded for a new
  entry by \<open>Insert\<close> without padding (in both variants) are exactly the keys of these
  cells, and \<open>QueryCells\<close> returns exactly the occupied keys among them. For a positive
  cell width and \<open>n\<close> of magnitude below \<open>2^24\<close>, an entry whose right edge is at
  \<open>n * cellWidth\<close> claims no cell of column \<open>n\<close>.
\<close>

theorem cell_range_is_floor_ceil_half_open:
  "(box_fits (cellWidth g) (cellHeight g) minX minY maxX maxY \<longrightarrow>
      cellRange g minX minY maxX maxY
      = (word_of_int \<lfloor>round32 (minX / cellWidth g)\<rfloor>, word_of_int \<lfloor>round32 (minY / cellHeight g)\<rfloor>,
         word_of_int \<lceil>round32 (maxX / cellWidth g)\<rceil>, word_of_int \<lceil>round32 (maxY / cellHeight g)\<rceil>))
   \<and> (box_fits cellSize cellSize minX minY maxX maxY \<longrightarrow>
      computeCellRange minX minY maxX maxY cellSize
      = (word_of_int \<lfloor>round32 (minX / cellSize)\<rfloor>, word_of_int \<lfloor>round32 (minY / cellSize)\<rfloor>,
         word_of_int \<lceil>round32 (maxX / cellSize)\<rceil>, word_of_int \<lceil>round32 (maxY / cellSize)\<rceil>))
   \<and> (\<not> Contains g e \<longrightarrow>
        (\<exists>K. itemCells (snd (Insert g e minX minY maxX maxY NoGridPadding)) e = Some K
           \<and> set K = (case cellRange g minX minY maxX maxY of
                 (startX, startY, endX, endY) \<Rightarrow>
                   {EncodeGridKey cx cy | cx cy.
                      startX \<le>s cx \<and> cx <s endX \<and> startY \<le>s cy \<and> cy <s endY})))
   \<and> set (QueryCells g minX minY maxX maxY)
     = (case cellRange g minX minY maxX maxY of
          (startX, startY, endX, endY) \<Rightarrow>
            {k \<in> {EncodeGridKey cx cy | cx cy.
                      startX \<le>s cx \<and> cx <s endX \<and> startY \<le>s cy \<and> cy <s endY}.
               cells g k \<noteq> None})
   \<and> (part0_cellKeys p e = None \<and> entry_Min m e = (minX, minY) \<and> entry_Max m e = (maxX, maxY)
      \<longrightarrow> (\<exists>K. part0_cellKeys (snd (part0_Insert m p e)) e = Some K
           \<and> set K = (case computeCellRange minX minY maxX maxY (part0_cellSize p) of
                 (startX, startY, endX, endY) \<Rightarrow>
                   {EncodeGridKey cx cy | cx cy.
                      startX \<le>s cx \<and> cx <s endX \<and> startY \<le>s cy \<and> cy <s endY})))
   \<and> (0 < cellWidth g \<and> \<bar>n\<bar> < 2 ^ 24 \<and> \<not> Contains g e \<longrightarrow>
        (\<forall>K cy. itemCells (snd (Insert g e minX minY (real_of_int n * cellWidth g) maxY NoGridPadding)) e
                   = Some K
                 \<longrightarrow> EncodeGridKey (word_of_int n) cy \<notin> set K))"
proof (intro conjI impI allI)
  assume "box_fits (cellWidth g) (cellHeight g) minX minY maxX maxY"
  then show "cellRange g minX minY maxX maxY
      = (word_of_int \<lfloor>round32 (minX / cellWidth g)\<rfloor>, word_of_int \<lfloor>round32 (minY / cellHeight g)\<rfloor>,
         word_of_int \<lceil>round32 (maxX / cellWidth g)\<rceil>, word_of_int \<lceil>round32 (maxY / cellHeight g)\<rceil>)"
    by (rule cellRange_fits)
next
  assume "box_fits cellSize cellSize minX minY maxX maxY"
  then show "computeCellRange minX minY maxX maxY cellSize
      = (word_of_int \<lfloor>round32 (minX / cellSize)\<rfloor>, word_of_int \<lfloor>round32 (minY / cellSize)\<rfloor>,
         word_of_int \<lceil>round32 (maxX / cellSize)\<rceil>, word_of_int \<lceil>round32 (maxY / cellSize)\<rceil>)"
    by (rule computeCellRange_fits)
next
  assume a: "\<not> Contains g e"
  have "itemCells (snd (Insert g e minX minY maxX maxY NoGridPadding)) e
      = Some (claimed_keys g minX minY maxX maxY NoGridPadding None)"
    by (simp add: Insert_def insert_grid_absent [OF a])
  moreover have "set (claimed_keys g minX minY maxX maxY NoGridPadding None)
      = (case cellRange g minX minY maxX maxY of
           (startX, startY, endX, endY) \<Rightarrow>
             {EncodeGridKey cx cy | cx cy.
                startX \<le>s cx \<and> cx <s endX \<and> startY \<le>s cy \<and> cy <s endY})"
    by (simp add: set_claimed_keys_all padded_def NoGridPadding_def GridCellPadding_def
        half_open_keys split: prod.splits)
  ultimately show "\<exists>K. itemCells (snd (Insert g e minX minY maxX maxY NoGridPadding)) e = Some K
           \<and> set K = (case cellRange g minX minY maxX maxY of
                 (startX, startY, endX, endY) \<Rightarrow>
                   {EncodeGridKey cx cy | cx cy.
                      startX \<le>s cx \<and> cx <s endX \<and> startY \<le>s cy \<and> cy <s endY})"
    by blast
next
  show "set (QueryCells g minX minY maxX maxY)
     = (case cellRange g minX minY maxX maxY of
          (startX, startY, endX, endY) \<Rightarrow>
            {k \<in> {EncodeGridKey cx cy | cx cy.
                      startX \<le>s cx \<and> cx <s endX \<and> startY \<le>s cy \<and> cy <s endY}.
               cells g k \<noteq> None})"
    unfolding QueryCells_filter set_filter set_query_keys
    by (simp add: half_open_keys split: prod.splits)
next
  assume a: "part0_cellKeys p e = None \<and> entry_Min m e = (minX, minY) \<and> entry_Max m e = (maxX, maxY)"
  then have n: "part0_cellKeys p e = None" by simp
  have "part0_cellKeys (snd (part0_Insert m p e)) e = Some (part0_claimed_keys m p e None)"
    by (simp add: part0_Insert_def InsertStrictCheck_absent [OF n])
  moreover have "set (part0_claimed_keys m p e None)
      = (case computeCellRange minX minY maxX maxY (part0_cellSize p) of
           (startX, startY, endX, endY) \<Rightarrow>
             {EncodeGridKey cx cy | cx cy.
                startX \<le>s cx \<and> cx <s endX \<and> startY \<le>s cy \<and> cy <s endY})"
    using a by (intro set_part0_claimed_keys) simp_all
  ultimately show "\<exists>K. part0_cellKeys (snd (part0_Insert m p e)) e = Some K
           \<and> set K = (case computeCellRange minX minY maxX maxY (part0_cellSize p) of
                 (startX, startY, endX, endY) \<Rightarrow>
                   {EncodeGridKey cx cy | cx cy.
                      startX \<le>s cx \<and> cx <s endX \<and> startY \<le>s cy \<and> cy <s endY})"
    by blast
next
  fix K cy
  assume a: "0 < cellWidth g \<and> \<bar>n\<bar> < 2 ^ 24 \<and> \<not> Contains g e"
    and k: "itemCells (snd (Insert g e minX minY (real_of_int n * cellWidth g) maxY NoGridPadding)) e
                   = Some K"
  have c: "\<not> Contains g e" using a by simp
  have "K = claimed_keys g minX minY (real_of_int n * cellWidth g) maxY NoGridPadding None"
    using k by (simp add: Insert_def insert_grid_absent [OF c])
  then have "set K = {EncodeGridKey cx cy' | cx cy'.
        floor32 (fdiv minX (cellWidth g)) \<le>s cx
        \<and> cx <s ceil32 (fdiv (real_of_int n * cellWidth g) (cellWidth g))
        \<and> floor32 (fdiv minY (cellHeight g)) \<le>s cy' \<and> cy' <s ceil32 (fdiv maxY (cellHeight g))}"
    by (simp add: set_claimed_keys_all padded_def cellRange_def NoGridPadding_def
        GridCellPadding_def half_open_keys)
  moreover have "ceil32 (fdiv (real_of_int n * cellWidth g) (cellWidth g)) = word_of_int n"
    using a by (intro ceil32_on_boundary) simp_all
  ultimately show "EncodeGridKey (word_of_int n) cy \<notin> set K"
    by (auto simp add: EncodeGridKey_inj)
qed

lemma Insert_boundary_example:
  "itemCells (snd (Insert (NewGrid 64 64) (a :: 'a) 0 0 64 32 NoGridPadding)) a
   = Some [EncodeGridKey 0 0]"
proof -
  have r: "cellRange (NewGrid 64 64 :: 'a Grid) 0 0 64 32 = (0, 0, 1, 1)"
    by (simp add: cellRange_def floor32_def ceil32_def int32_of_def fdiv_values ceiling_half NewGrid_def)
  show ?thesis
    unfolding Insert_def insert_grid_def r
    by (simp add: Contains_def NoGridPadding_def GridCellPadding_def loop_one_cell
        doInsert_def insert_cell_def bucket_def)
       (simp add: NewGrid_def)
qed

theorem cell_range_is_floor_ceil_half_open_witness:
  "\<not> Contains (NewGrid 64 64 :: int Grid) 1
   \<and> 0 < cellWidth (NewGrid 64 64 :: int Grid)
   \<and> box_fits 64 64 0 0 64 32
   \<and> cellRange (NewGrid 64 64 :: int Grid) 0 0 64 32 = (0, 0, 1, 1)
   \<and> computeCellRange 0 0 64 32 64 = (0, 0, 1, 1)
   \<and> itemCells (snd (Insert (NewGrid 64 64) (1::int) 0 0 64 32 NoGridPadding)) 1
       = Some [EncodeGridKey 0 0]
   \<and> EncodeGridKey 1 0 \<notin> set [EncodeGridKey 0 0]
   \<and> part0_cellKeys (\<lparr>part0_cellSize = 64, part0_cells = Map.empty, part0_cellKeys = Map.empty,
         part0_queryResults = [], part0_queryKeys = [], part0_getKeys = []\<rparr> :: int part0_Grid) 1 = None
   \<and> part0_cellKeys (snd (part0_Insert \<lparr>entry_Min = \<lambda>_. (0, 0), entry_Max = \<lambda>_. (64, 32)\<rparr>
        \<lparr>part0_cellSize = 64, part0_cells = Map.empty, part0_cellKeys = Map.empty,
         part0_queryResults = [], part0_queryKeys = [], part0_getKeys = []\<rparr> (1::int))) 1 \<noteq> None"
proof -
  let ?n = "NewGrid 64 64 :: int Grid"
  let ?m = "\<lparr>entry_Min = \<lambda>_::int. (0::real, 0::real), entry_Max = \<lambda>_. (64, 32)\<rparr>"
  let ?e = "\<lparr>part0_cellSize = 64, part0_cells = Map.empty, part0_cellKeys = Map.empty,
         part0_queryResults = [], part0_queryKeys = [], part0_getKeys = []\<rparr> :: int part0_Grid"
  note t = cell_range_is_floor_ceil_half_open
    [where g = ?n and e = 1 and minX = 0 and minY = 0 and maxX = 64 and maxY = 32
       and cellSize = 64 and p = ?e and m = ?m and n = 1]
  have 1: "\<not> Contains ?n 1" by (rule NewGrid_empty)
  have 2: "0 < cellWidth ?n" by (simp add: NewGrid_def)
  have f: "box_fits 64 64 0 0 64 32"
    by (simp add: box_fits_def fits32_def round32_values ceiling_half)
  have 3: "cellRange ?n 0 0 64 32 = (0, 0, 1, 1)"
  proof -
    have "box_fits (cellWidth ?n) (cellHeight ?n) 0 0 64 32" using f by (simp add: NewGrid_size)
    then have "cellRange ?n 0 0 64 32
      = (word_of_int \<lfloor>round32 (0 / cellWidth ?n)\<rfloor>, word_of_int \<lfloor>round32 (0 / cellHeight ?n)\<rfloor>,
         word_of_int \<lceil>round32 (64 / cellWidth ?n)\<rceil>, word_of_int \<lceil>round32 (32 / cellHeight ?n)\<rceil>)"
      using t by blast
    then show ?thesis by (simp add: NewGrid_size round32_values ceiling_half)
  qed
  have 8: "computeCellRange 0 0 64 32 64 = (0, 0, 1, 1)"
  proof -
    have "computeCellRange 0 0 64 32 64
      = (word_of_int \<lfloor>round32 (0 / 64)\<rfloor>, word_of_int \<lfloor>round32 (0 / 64)\<rfloor>,
         word_of_int \<lceil>round32 (64 / 64)\<rceil>, word_of_int \<lceil>round32 (32 / 64)\<rceil>)"
      using t f by blast
    then show ?thesis by (simp add: round32_values ceiling_half)
  qed
  have 4: "itemCells (snd (Insert ?n 1 0 0 64 32 NoGridPadding)) 1 = Some [EncodeGridKey 0 0]"
    by (rule Insert_boundary_example)
  have 5: "EncodeGridKey 1 0 \<notin> set [EncodeGridKey 0 0]"
  proof -
    have w: "real_of_int 1 * cellWidth ?n = 64" by (simp add: NewGrid_def)
    have "\<forall>K cy. itemCells (snd (Insert ?n 1 0 0 (real_of_int 1 * cellWidth ?n) 32 NoGridPadding)) 1
                   = Some K
                 \<longrightarrow> EncodeGridKey (word_of_int 1) cy \<notin> set K"
      using t 1 2 by simp
    then have "EncodeGridKey (word_of_int 1) 0 \<notin> set [EncodeGridKey 0 0]"
      using 4 unfolding w by blast
    then show ?thesis by simp
  qed
  have 6: "part0_cellKeys ?e 1 = None" by simp
  have 7: "part0_cellKeys (snd (part0_Insert ?m ?e 1)) 1 \<noteq> None"
  proof -
    have "entry_Min ?m 1 = (0, 0)" "entry_Max ?m 1 = (64, 32)" by simp_all
    then have "\<exists>K. part0_cellKeys (snd (part0_Insert ?m ?e 1)) 1 = Some K
           \<and> set K = (case computeCellRange 0 0 64 32 (part0_cellSize ?e) of
                 (startX, startY, endX, endY) \<Rightarrow>
                   {EncodeGridKey cx cy | cx cy.
                      startX \<le>s cx \<and> cx <s endX \<and> startY \<le>s cy \<and> cy <s endY})"
      using t 6 by blast
    then show ?thesis by auto
  qed
  show ?thesis using 1 2 f 3 8 4 5 6 7 by blast
qed

subsection \<open>C8: non-positive cell sizes\<close>

text \<open>
  The claim as stated fails in package \<open>hash\<close>: \<open>NewGrid\<close> and \<open>Resize\<close> check
  nothing. They return a grid with cell size 0 or -1.
\<close>

theorem NewGrid_and_Resize_accept_non_positive_size:
  "(NewGrid 0 0 :: int Grid)
     = \<lparr>gen = 0, cellWidth = 0, cellHeight = 0, cells = Map.empty, items = Map.empty,
        itemCells = Map.empty, qBuf = []\<rparr>
   \<and> (NewGrid (- 1) (- 1) :: int Grid)
     = \<lparr>gen = 0, cellWidth = - 1, cellHeight = - 1, cells = Map.empty, items = Map.empty,
        itemCells = Map.empty, qBuf = []\<rparr>
   \<and> Resize (NewGrid 64 64 :: int Grid) (- 1) (- 1)
     = \<lparr>gen = 0, cellWidth = - 1, cellHeight = - 1, cells = Map.empty, items = Map.empty,
        itemCells = Map.empty, qBuf = []\<rparr>"
  by (simp add: NewGrid_def Resize_def Clear_def)

text \<open>
  C8, amended: the constructors of package \<open>hashgrid\<close> (\<open>New\<close>, \<open>NewWithPadding\<close>, and
  \<open>New\<close> of \<open>src/unnamed/part_000\<close>) panic with "cellSize must be positive" exactly
  when the cell size is zero or negative, and return a grid of that cell size
  otherwise. \<open>NewGrid\<close> and \<open>Resize\<close> of package \<open>hash\<close> have no failure: the grid
  they return has the width and height they were given.
\<close>

theorem hashgrid_constructors_panic_iff_non_positive:
  "(cellSize \<le> 0 \<longrightarrow>
      (hashgrid_New cellSize :: panic + 'a hashgrid_Grid) = Inl (Panic ''cellSize must be positive'')
      \<and> (NewWithPadding cellSize padding :: panic + 'a hashgrid_Grid)
          = Inl (Panic ''cellSize must be positive'')
      \<and> (part0_New cellSize :: panic + 'a part0_Grid) = Inl (Panic ''cellSize must be positive''))
   \<and> (0 < cellSize \<longrightarrow>
      (\<exists>g :: 'a hashgrid_Grid. hashgrid_New cellSize = Inr g \<and> hashgrid_cellSize g = cellSize
            \<and> hashgrid_cells g = Map.empty)
      \<and> (\<exists>g :: 'a hashgrid_Grid. NewWithPadding cellSize padding = Inr g
            \<and> hashgrid_cellSize g = cellSize \<and> hashgrid_cells g = Map.empty)
      \<and> (\<exists>g :: 'a part0_Grid. part0_New cellSize = Inr g \<and> part0_cellSize g = cellSize
            \<and> part0_cells g = Map.empty \<and> part0_cellKeys g = Map.empty))
   \<and> cellWidth (NewGrid cw ch :: 'b Grid) = cw \<and> cellHeight (NewGrid cw ch :: 'b Grid) = ch
   \<and> cellWidth (Resize (h :: ('c::zero) Grid) cw ch) = cw \<and> cellHeight (Resize h cw ch) = ch"
  by (auto simp add: hashgrid_New_def NewWithPadding_def part0_New_def NewGrid_def Resize_def
      Clear_def)

theorem hashgrid_constructors_panic_iff_non_positive_witness:
  "(0::real) \<le> 0 \<and> (- 1 :: real) \<le> 0 \<and> (0::real) < 64
   \<and> (hashgrid_New 0 :: panic + int hashgrid_Grid) = Inl (Panic ''cellSize must be positive'')
   \<and> (hashgrid_New (- 1) :: panic + int hashgrid_Grid) = Inl (Panic ''cellSize must be positive'')
   \<and> (part0_New 0 :: panic + int part0_Grid) = Inl (Panic ''cellSize must be positive'')
   \<and> (hashgrid_New 64 :: panic + int hashgrid_Grid) \<noteq> Inl (Panic ''cellSize must be positive'')
   \<and> cellWidth (NewGrid 0 0 :: int Grid) = 0"
proof -
  note a = hashgrid_constructors_panic_iff_non_positive
    [where ?'a = int and ?'b = int and ?'c = int and cellSize = 0 and padding = NoPadding
       and cw = 0 and ch = 0 and h = "NewGrid 64 64"]
  note b = hashgrid_constructors_panic_iff_non_positive
    [where ?'a = int and ?'b = int and ?'c = int and cellSize = "- 1" and padding = NoPadding
       and cw = 0 and ch = 0 and h = "NewGrid 64 64"]
  note c = hashgrid_constructors_panic_iff_non_positive
    [where ?'a = int and ?'b = int and ?'c = int and cellSize = 64 and padding = NoPadding
       and cw = 0 and ch = 0 and h = "NewGrid 64 64"]
  have 1: "(0::real) \<le> 0" "(- 1 :: real) \<le> 0" "(0::real) < 64" by simp_all
  have 2: "(hashgrid_New 0 :: panic + int hashgrid_Grid) = Inl (Panic ''cellSize must be positive'')"
    "(part0_New 0 :: panic + int part0_Grid) = Inl (Panic ''cellSize must be positive'')"
    "cellWidth (NewGrid 0 0 :: int Grid) = 0"
    using a 1(1) by blast+
  have 3: "(hashgrid_New (- 1) :: panic + int hashgrid_Grid) = Inl (Panic ''cellSize must be positive'')"
    using b 1(2) by blast
  have "\<exists>g :: int hashgrid_Grid. hashgrid_New 64 = Inr g \<and> hashgrid_cellSize g = 64
            \<and> hashgrid_cells g = Map.empty"
    using c 1(3) by blast
  then have 4: "(hashgrid_New 64 :: panic + int hashgrid_Grid) \<noteq> Inl (Panic ''cellSize must be positive'')"
    by auto
  show ?thesis using 1 2 3 4 by blast
qed

end
